theory Spec2Isabelle
  imports Complex_Main "HOL-Library.Extended_Nat" "HOL-Library.Product_Lexorder"
    "HOL-Library.Multiset"
begin

section \<open>Errors\<close>

text \<open>
  A script either writes its output table or stops. The first five errors are the early
  \<^verbatim>\<open>return\<close>s of the two balancing scripts, named after the message each prints; the
  others are exceptions that nothing catches.
\<close>

datatype error =
    NoRowsAfterMoveFilter
  | NoCentipawnRows
  | NoRowsAfterCapping
  | EmptyCategory
  | NoEvalBins
  | ValueError
  | ZeroDivisionError
  | IndexError
  | AttributeError

text \<open>A loop or an \<^verbatim>\<open>apply\<close> that produces one result per item stops at the first exception.\<close>

fun collect :: "(error + 'a) list \<Rightarrow> error + 'a list" where
  "collect [] = Inr []"
| "collect (x # xs) =
     (case x of
        Inl e \<Rightarrow> Inl e
      | Inr v \<Rightarrow> (case collect xs of Inl e \<Rightarrow> Inl e | Inr vs \<Rightarrow> Inr (v # vs)))"

section \<open>Preprocessing: \<^verbatim>\<open>data processing.py\<close>\<close>

subsection \<open>Python string primitives used by the parser\<close>

text \<open>
  A token is a Python \<^verbatim>\<open>str\<close> whose characters have code points below 256; a
  \<open>char\<close> is one such code point. Text with characters beyond that range is outside
  the model. \<^verbatim>\<open>str.strip()\<close> removes the characters for which \<^verbatim>\<open>str.isspace()\<close>
  holds; below 256 these are the code points 9..13, 28..32, 133 (U+0085) and 160
  (U+00A0).
\<close>

definition isspace :: "char \<Rightarrow> bool" where
  "isspace c =
     (let n = (of_char c :: nat)
      in (9 \<le> n \<and> n \<le> 13) \<or> (28 \<le> n \<and> n \<le> 32) \<or> n = 133 \<or> n = 160)"

definition strip :: "string \<Rightarrow> string" where
  "strip s = rev (dropWhile isspace (rev (dropWhile isspace s)))"

definition startswith :: "string \<Rightarrow> string \<Rightarrow> bool" where
  "startswith s prefix = (take (length prefix) s = prefix)"

text \<open>
  The characters that \<^verbatim>\<open>int()\<close> reads as decimal digits; below code point 256 these
  are \<^verbatim>\<open>0\<close> .. \<^verbatim>\<open>9\<close> only.
\<close>

definition decimal_digit :: "char \<Rightarrow> bool" where
  "decimal_digit c = (let n = (of_char c :: nat) in 48 \<le> n \<and> n \<le> 57)"

definition digit_value :: "char \<Rightarrow> int" where
  "digit_value c = int (of_char c) - 48"

text \<open>
  \<^verbatim>\<open>int(s)\<close> in base 10 on an already stripped string: an optional sign, then decimal
  digits in which single underscores may separate two digits. \<open>None\<close> is the
  \<^verbatim>\<open>ValueError\<close>, which is also raised when the string has more digits than the
  interpreter's limit on integer conversion, 4300 by default. Python integers are
  unbounded.
\<close>

definition max_str_digits :: nat where
  "max_str_digits = 4300"

fun digit_groups :: "string \<Rightarrow> bool" where
  "digit_groups [] = False"
| "digit_groups [c] = decimal_digit c"
| "digit_groups (c # d # cs) =
     (decimal_digit c \<and> (if d = CHR ''_'' then digit_groups cs else digit_groups (d # cs)))"

definition digits_value :: "string \<Rightarrow> int" where
  "digits_value ds = foldl (\<lambda>acc c. 10 * acc + digit_value c) 0 ds"

definition py_int :: "string \<Rightarrow> int option" where
  "py_int s =
     (let negative = (s \<noteq> [] \<and> hd s = CHR ''-'');
          body = (if s \<noteq> [] \<and> (hd s = CHR ''+'' \<or> hd s = CHR ''-'') then tl s else s)
      in if digit_groups body \<and> length (filter decimal_digit body) \<le> max_str_digits
         then (let v = digits_value (filter (\<lambda>c. c \<noteq> CHR ''_'') body)
               in Some (if negative then - v else v))
         else None)"

subsection \<open>parse\_evaluation\<close>

text \<open>
  The argument is the text that \<^verbatim>\<open>str(eval_string)\<close> gives. Each \<^verbatim>\<open>print\<close> of a
  warning is a log entry carrying the offending input.
\<close>

datatype warning =
    InvalidFen string
  | UnexpectedCheckmateFormat string
  | CouldNotParse string

definition parse_evaluation :: "string \<Rightarrow> int \<times> warning list" where
  "parse_evaluation eval_string0 =
     (let eval_string = strip eval_string0
      in if startswith eval_string ''#''
         then (if startswith eval_string ''#+'' then (20000, [])
               else if startswith eval_string ''#-'' then (- 20000, [])
               else (0, [UnexpectedCheckmateFormat eval_string]))
         else (case py_int eval_string of
                 Some v \<Rightarrow> (v, [])
               | None \<Rightarrow> (0, [CouldNotParse eval_string])))"










subsection \<open>parse\_fen\<close>

text \<open>
  The board object of the chess library, reduced to the attributes and methods that
  \<^verbatim>\<open>parse_fen\<close> reads. \<^verbatim>\<open>chess.WHITE\<close> is \<open>True\<close>, \<^verbatim>\<open>chess.BLACK\<close> is \<open>False\<close>.
  The library's constructor \<^verbatim>\<open>chess.Board(fen)\<close> is a parameter of the model, of type
  \<open>string \<Rightarrow> board option\<close>: \<open>None\<close> stands for the \<^verbatim>\<open>ValueError\<close> it raises on a
  description it rejects. \<open>parse_fen\<close> below is the function on a \<^verbatim>\<open>str\<close>; what happens
  when it is handed a value of another type is part of \<open>process_chunk\<close>.
\<close>

record board =
  piece_at :: "nat \<Rightarrow> char option"
  turn :: bool
  has_kingside_castling_rights :: "bool \<Rightarrow> bool"
  has_queenside_castling_rights :: "bool \<Rightarrow> bool"
  ep_square :: "nat option"
  halfmove_clock :: int
  fullmove_number :: int

definition PIECE_MAPPING :: "char \<rightharpoonup> int" where
  "PIECE_MAPPING =
     [CHR ''P'' \<mapsto> 1, CHR ''N'' \<mapsto> 2, CHR ''B'' \<mapsto> 3, CHR ''R'' \<mapsto> 4, CHR ''Q'' \<mapsto> 5, CHR ''K'' \<mapsto> 6,
      CHR ''p'' \<mapsto> - 1, CHR ''n'' \<mapsto> - 2, CHR ''b'' \<mapsto> - 3, CHR ''r'' \<mapsto> - 4, CHR ''q'' \<mapsto> - 5,
      CHR ''k'' \<mapsto> - 6]"

definition SQUARES :: "nat list" where
  "SQUARES = [0..<64]"

definition flag :: "bool \<Rightarrow> int" where
  "flag b = (if b then 1 else 0)"

definition parse_fen :: "(string \<Rightarrow> board option) \<Rightarrow> string \<Rightarrow> int list \<times> warning list" where
  "parse_fen chess_Board fen_string =
     (case chess_Board fen_string of
        None \<Rightarrow>
          (let empty_board_state = replicate 64 0
           in (empty_board_state @ [0, 0, 0, 0, 0, 0, 0, 0, 0], [InvalidFen fen_string]))
      | Some b \<Rightarrow>
          (let board_state =
                 foldl (\<lambda>st i. case piece_at b i of
                                  None \<Rightarrow> st
                                | Some symbol \<Rightarrow>
                                    st[i := (case PIECE_MAPPING symbol of Some v \<Rightarrow> v | None \<Rightarrow> 0)])
                       (replicate 64 0) SQUARES;
               is_white_to_move = flag (turn b = True);
               is_black_to_move = flag (turn b = False);
               white_kingside_castling = flag (has_kingside_castling_rights b True);
               white_queenside_castling = flag (has_queenside_castling_rights b True);
               black_kingside_castling = flag (has_kingside_castling_rights b False);
               black_queenside_castling = flag (has_queenside_castling_rights b False);
               en_passant_available = flag (ep_square b \<noteq> None)
           in (board_state @
               [is_white_to_move, is_black_to_move,
                white_kingside_castling, white_queenside_castling,
                black_kingside_castling, black_queenside_castling,
                en_passant_available,
                halfmove_clock b,
                fullmove_number b], [])))"

subsection \<open>process\_chess\_data\<close>

text \<open>
  One row of the processed table, with the columns of \<^verbatim>\<open>OUTPUT_COLUMNS\<close>: the 64
  square columns a1 .. h8 as one list, then the ten named columns. The column
  \<^verbatim>\<open>halfmove_clock\<close> is the field \<open>halfmove_clock_col\<close>, the board's attribute having
  taken the name.
\<close>

record feature_record =
  squares :: "int list"
  is_white_to_move :: int
  is_black_to_move :: int
  white_kingside_castling :: int
  white_queenside_castling :: int
  black_kingside_castling :: int
  black_queenside_castling :: int
  en_passant_available :: int
  halfmove_clock_col :: int
  fullmove_counter :: int
  evaluation :: int

text \<open>\<^verbatim>\<open>processed_chunk.columns = OUTPUT_COLUMNS\<close>: the 74 values of a row get their names by position.\<close>

definition assign_columns :: "int list \<Rightarrow> feature_record" where
  "assign_columns vs =
     \<lparr> squares = take 64 vs,
       is_white_to_move = vs ! 64,
       is_black_to_move = vs ! 65,
       white_kingside_castling = vs ! 66,
       white_queenside_castling = vs ! 67,
       black_kingside_castling = vs ! 68,
       black_queenside_castling = vs ! 69,
       en_passant_available = vs ! 70,
       halfmove_clock_col = vs ! 71,
       fullmove_counter = vs ! 72,
       evaluation = vs ! 73 \<rparr>"

text \<open>
  A cell of a chunk as \<^verbatim>\<open>pd.read_csv\<close> delivers it: a \<^verbatim>\<open>str\<close>, or a value of another
  type, carried with the text that \<^verbatim>\<open>str()\<close> gives for it. The reader turns an empty
  or NA-looking cell of a text column into the float NaN (\<open>NonText ''nan''\<close>), and the
  cells of a column it reads as numbers into numbers (\<open>NonText ''12''\<close>,
  \<open>NonText ''12.0''\<close>).
\<close>

datatype cell = Text string | NonText string

definition py_str :: "cell \<Rightarrow> string" where
  "py_str v = (case v of Text s \<Rightarrow> s | NonText t \<Rightarrow> t)"

text \<open>
  One chunk: every FEN cell of the chunk is decoded, then every evaluation cell is
  parsed, and the two are joined row by row. \<^verbatim>\<open>chess.Board\<close> splits its argument as a
  \<^verbatim>\<open>str\<close>: on a FEN cell that is not one it raises \<^verbatim>\<open>AttributeError\<close>, which the
  \<^verbatim>\<open>except ValueError\<close> of \<open>parse_fen\<close> does not catch, and the run stops. A chunk
  without rows gives a frame of one column, and naming its columns raises
  \<^verbatim>\<open>ValueError\<close>. The log holds the warnings in the order printed.
\<close>

definition process_chunk ::
  "(string \<Rightarrow> board option) \<Rightarrow> (cell \<times> cell) list \<Rightarrow>
     error + (feature_record list \<times> warning list)" where
  "process_chunk chess_Board chunk =
     (case collect (map (\<lambda>row. case fst row of
                                  Text fen_string \<Rightarrow> Inr (parse_fen chess_Board fen_string)
                                | NonText _ \<Rightarrow> Inl AttributeError) chunk) of
        Inl e \<Rightarrow> Inl e
      | Inr fen_results \<Rightarrow>
          (let eval_results = map (\<lambda>row. parse_evaluation (py_str (snd row))) chunk
           in if chunk = [] then Inl ValueError
              else (let processed_chunk =
                          map (\<lambda>(f, e). assign_columns (fst f @ [fst e]))
                              (zip fen_results eval_results)
                    in Inr (processed_chunk,
                            concat (map snd fen_results) @ concat (map snd eval_results)))))"

text \<open>
  The whole run over the chunks delivered by the reader: the rows of each chunk are
  appended to the output file in order. When a chunk stops the run, the rows of the
  chunks before it are already in the file.
\<close>

definition process_chess_data ::
  "(string \<Rightarrow> board option) \<Rightarrow> (cell \<times> cell) list list \<Rightarrow>
     error + (feature_record list \<times> warning list)" where
  "process_chess_data chess_Board chunks =
     foldl (\<lambda>state chunk.
              case state of
                Inl e \<Rightarrow> Inl e
              | Inr (written, logged) \<Rightarrow>
                  (case process_chunk chess_Board chunk of
                     Inl e \<Rightarrow> Inl e
                   | Inr (rows, warnings) \<Rightarrow> Inr (written @ rows, logged @ warnings)))
           (Inr ([], [])) chunks"

section \<open>Filtering and balancing: \<^verbatim>\<open>data filter balance normalize.py\<close> and
  \<^verbatim>\<open>data filter balance no normalize.py\<close>\<close>

subsection \<open>Library operations\<close>

text \<open>
  \<^verbatim>\<open>df.sample(n=n, random_state=seed)\<close> takes the rows at the positions that a
  generator freshly seeded with \<open>seed\<close> draws, without replacement, from
  \<open>0 ..< len(df)\<close>. The generator is a parameter of the model: \<open>choice seed N n\<close> is the
  list of the \<open>n\<close> positions drawn from a population of size \<open>N\<close>. A negative \<open>n\<close>, or
  one above the number of rows, raises \<^verbatim>\<open>ValueError\<close>.
\<close>

type_synonym sampler = "int \<Rightarrow> nat \<Rightarrow> nat \<Rightarrow> nat list"

definition sample :: "sampler \<Rightarrow> 'a list \<Rightarrow> int \<Rightarrow> int \<Rightarrow> error + 'a list" where
  "sample choice df n random_state =
     (if n < 0 \<or> int (length df) < n then Inl ValueError
      else Inr (map (\<lambda>i. df ! i) (choice random_state (length df) (nat n))))"

text \<open>What the library promises of the drawn positions: as many as asked, distinct, in range.\<close>

definition valid_sampler :: "sampler \<Rightarrow> bool" where
  "valid_sampler choice =
     (\<forall>seed N n. n \<le> N \<longrightarrow>
        length (choice seed N n) = n \<and> distinct (choice seed N n) \<and>
        (\<forall>i \<in> set (choice seed N n). i < N))"

text \<open>\<^verbatim>\<open>pd.concat\<close> of an empty list of frames raises \<^verbatim>\<open>ValueError\<close>.\<close>

definition pd_concat :: "'a list list \<Rightarrow> error + 'a list" where
  "pd_concat dfs = (if dfs = [] then Inl ValueError else Inr (concat dfs))"

text \<open>
  \<^verbatim>\<open>np.arange(start, stop, step)\<close> on integers: the values \<open>start + i * step\<close> of the
  half-open interval from \<open>start\<close> to \<open>stop\<close>, \<open>ceil((stop - start) / step)\<close> of them;
  a zero step raises \<^verbatim>\<open>ZeroDivisionError\<close>.
\<close>

definition np_arange :: "int \<Rightarrow> int \<Rightarrow> int \<Rightarrow> error + int list" where
  "np_arange start stop step =
     (if step = 0 then Inl ZeroDivisionError
      else Inr (map (\<lambda>i. start + int i * step) [0..<nat (- ((start - stop) div step))]))"

text \<open>
  \<^verbatim>\<open>pd.cut(x, bins=bins, labels=False, include_lowest=True, right=False)\<close> with a list
  of bin edges. Edges that do not increase raise \<^verbatim>\<open>ValueError\<close>. The label of a value
  is found by \<^verbatim>\<open>bins.searchsorted(x, side='right')\<close>, the number of edges at or below
  it; \<^verbatim>\<open>include_lowest\<close> sets that number to 1 for a value equal to the first edge
  (\<^verbatim>\<open>bins[0]\<close>, an \<^verbatim>\<open>IndexError\<close> without edges); a value below the first edge or at
  or above the last one gets no label (NaN, here \<open>None\<close>), any other value gets the
  number minus one.
\<close>

definition searchsorted_right :: "int list \<Rightarrow> int \<Rightarrow> nat" where
  "searchsorted_right bins x = length (filter (\<lambda>b. b \<le> x) bins)"

definition cut_label :: "int list \<Rightarrow> int \<Rightarrow> nat option" where
  "cut_label bins x =
     (let ids = searchsorted_right bins x;
          ids = (if x = hd bins then 1 else ids)
      in if ids = length bins \<or> ids = 0 then None else Some (ids - 1))"

definition pd_cut :: "int list \<Rightarrow> int list \<Rightarrow> error + nat option list" where
  "pd_cut xs bins =
     (if \<not> sorted bins then Inl ValueError
      else if bins = [] then Inl IndexError
      else Inr (map (cut_label bins) xs))"

text \<open>
  \<^verbatim>\<open>Series.value_counts()\<close>: the labels that occur (NaN dropped) with their counts,
  the largest count first. Labels with equal counts are taken here in order of first
  appearance; no property below depends on the order.
\<close>

definition value_counts :: "nat option list \<Rightarrow> (nat \<times> nat) list" where
  "value_counts labels =
     (let present = rev (remdups (rev (List.map_filter (\<lambda>l. l) labels)))
      in sort_key (\<lambda>bc. - int (snd bc)) (map (\<lambda>b. (b, count_list labels (Some b))) present))"

text \<open>
  \<^verbatim>\<open>MinMaxScaler(feature_range).fit_transform\<close> on one column, in exact arithmetic (the
  floating-point results are roundings of these values). A zero data range is replaced
  by 1 before dividing; an empty column raises \<^verbatim>\<open>ValueError\<close>.
\<close>

definition handle_zeros_in_scale :: "rat \<Rightarrow> rat" where
  "handle_zeros_in_scale scale = (if scale = 0 then 1 else scale)"

definition MinMaxScaler_fit_transform :: "rat \<times> rat \<Rightarrow> rat list \<Rightarrow> error + rat list" where
  "MinMaxScaler_fit_transform feature_range X =
     (if X = [] then Inl ValueError
      else (let data_min = Min (set X);
                data_max = Max (set X);
                data_range = data_max - data_min;
                scale = (snd feature_range - fst feature_range) / handle_zeros_in_scale data_range;
                min_off = fst feature_range - data_min * scale
            in Inr (map (\<lambda>x. x * scale + min_off) X)))"

subsection \<open>Filters\<close>

definition move_filter :: "int \<Rightarrow> int \<Rightarrow> feature_record list \<Rightarrow> feature_record list" where
  "move_filter min_move max_move df =
     filter (\<lambda>r. fullmove_counter r \<ge> min_move \<and> fullmove_counter r \<le> max_move) df"

definition checkmates :: "feature_record list \<Rightarrow> feature_record list" where
  "checkmates df_filtered =
     filter (\<lambda>r. evaluation r = 20000 \<or> evaluation r = - 20000) df_filtered"

definition centipawns :: "feature_record list \<Rightarrow> feature_record list" where
  "centipawns df_filtered =
     filter (\<lambda>r. evaluation r \<noteq> 20000 \<and> evaluation r \<noteq> - 20000) df_filtered"

definition capping_filter :: "int \<Rightarrow> feature_record list \<Rightarrow> feature_record list" where
  "capping_filter eval_capping_threshold df_centipawns =
     filter (\<lambda>r. evaluation r \<ge> - eval_capping_threshold \<and>
                 evaluation r \<le> eval_capping_threshold) df_centipawns"

subsection \<open>Balancing the primary groups\<close>

datatype win_loss = black_winning | neutral | white_winning

definition win_loss_category :: "int \<Rightarrow> win_loss" where
  "win_loss_category e =
     (let c = neutral;
          c = (if e > 0 then white_winning else c);
          c = (if e < 0 then black_winning else c)
      in c)"

text \<open>The order of the three labels as strings, which orders the groups of \<^verbatim>\<open>groupby\<close>.\<close>

definition label_rank :: "win_loss \<Rightarrow> nat" where
  "label_rank c = (case c of black_winning \<Rightarrow> 0 | neutral \<Rightarrow> 1 | white_winning \<Rightarrow> 2)"

definition group_name :: "feature_record \<Rightarrow> int \<times> win_loss" where
  "group_name r = (is_white_to_move r, win_loss_category (evaluation r))"

definition name_order :: "int \<times> win_loss \<Rightarrow> int \<times> nat" where
  "name_order name = (fst name, label_rank (snd name))"

text \<open>
  \<^verbatim>\<open>df.groupby(['is_white_to_move', 'win_loss_category'])\<close>: one group for every pair
  of values that occurs in the table, in sorted order of the pairs, each with its rows
  in table order. A pair that no row carries has no group.
\<close>

definition groupby :: "feature_record list \<Rightarrow> ((int \<times> win_loss) \<times> feature_record list) list" where
  "groupby df =
     map (\<lambda>name. (name, filter (\<lambda>r. group_name r = name) df))
         (sort_key name_order (remdups (map group_name df)))"

text \<open>The first loop over the groups; \<open>\<infinity>\<close> is \<^verbatim>\<open>float('inf')\<close>.\<close>

definition min_primary_group_count :: "('k \<times> 'a list) list \<Rightarrow> enat" where
  "min_primary_group_count grouped =
     foldl (\<lambda>m ng. if enat (length (snd ng)) < m then enat (length (snd ng)) else m) \<infinity> grouped"

definition balance_primary :: "sampler \<Rightarrow> feature_record list \<Rightarrow> error + feature_record list" where
  "balance_primary choice df_centipawns =
     (let grouped = groupby df_centipawns;
          m = min_primary_group_count grouped
      in if m = 0 then Inl EmptyCategory
         else (case collect (map (\<lambda>ng. if enat (length (snd ng)) > m
                                        then sample choice (snd ng) (int (the_enat m)) 42
                                        else Inr (snd ng)) grouped) of
                 Inl e \<Rightarrow> Inl e
               | Inr balanced_primary_dfs \<Rightarrow> pd_concat balanced_primary_dfs))"

subsection \<open>Balancing the evaluation bins\<close>

text \<open>
  The bin edges. The minimum of an empty column is NaN, whose conversion to an integer
  raises \<^verbatim>\<open>ValueError\<close>. Floor division of the column's integers by a zero width
  gives 0, as \<open>div\<close> does, and the zero step then fails in \<^verbatim>\<open>np.arange\<close>.
\<close>

definition eval_bin_edges :: "int \<Rightarrow> feature_record list \<Rightarrow> error + int list" where
  "eval_bin_edges eval_bin_size df_balanced_primary =
     (if df_balanced_primary = [] then Inl ValueError
      else (let min_eval_for_bins = Min (set (map evaluation df_balanced_primary));
                max_eval_for_bins = Max (set (map evaluation df_balanced_primary))
            in np_arange ((min_eval_for_bins div eval_bin_size) * eval_bin_size)
                         ((max_eval_for_bins div eval_bin_size) * eval_bin_size + eval_bin_size)
                         eval_bin_size))"

definition rows_with_bin ::
  "feature_record list \<Rightarrow> nat option list \<Rightarrow> nat \<Rightarrow> feature_record list" where
  "rows_with_bin df eval_bin bin_label =
     map fst (filter (\<lambda>rb. snd rb = Some bin_label) (zip df eval_bin))"

definition balance_eval_bins ::
  "sampler \<Rightarrow> int \<Rightarrow> int \<Rightarrow> feature_record list \<Rightarrow> error + feature_record list" where
  "balance_eval_bins choice eval_bin_size min_positions_per_eval_bin df_balanced_primary =
     (case eval_bin_edges eval_bin_size df_balanced_primary of
        Inl e \<Rightarrow> Inl e
      | Inr bins \<Rightarrow>
          (case pd_cut (map evaluation df_balanced_primary) bins of
             Inl e \<Rightarrow> Inl e
           | Inr eval_bin \<Rightarrow>
               (let bin_counts = value_counts eval_bin
                in if bin_counts = [] then Inl NoEvalBins
                   else (case collect
                                (map (\<lambda>bc. let bin_df = rows_with_bin df_balanced_primary eval_bin (fst bc)
                                           in if int (length bin_df) > min_positions_per_eval_bin
                                              then sample choice bin_df min_positions_per_eval_bin 42
                                              else Inr bin_df)
                                     bin_counts) of
                           Inl e \<Rightarrow> Inl e
                         | Inr balanced_eval_dfs \<Rightarrow> pd_concat balanced_eval_dfs))))"

subsection \<open>Normalization\<close>

text \<open>The final table of the normalizing script has one more column.\<close>

record normalized_record = feature_record +
  evaluation_normalized :: rat

definition normalize_evaluation :: "feature_record list \<Rightarrow> error + normalized_record list" where
  "normalize_evaluation df_final_balanced =
     (case MinMaxScaler_fit_transform (- 1, 1)
             (map (\<lambda>r. rat_of_int (evaluation r)) df_final_balanced) of
        Inl e \<Rightarrow> Inl e
      | Inr column \<Rightarrow>
          Inr (map (\<lambda>rv. feature_record.extend (fst rv) (normalized_record.fields (snd rv)))
                   (zip df_final_balanced column)))"

subsection \<open>The two scripts\<close>

text \<open>
  Both take the loaded table \<open>df\<close>; the result is the table written to the output file.
\<close>

definition filter_balance_data_no_normalize ::
  "sampler \<Rightarrow> feature_record list \<Rightarrow> int \<Rightarrow> int \<Rightarrow> int \<Rightarrow> int \<Rightarrow> error + feature_record list" where
  "filter_balance_data_no_normalize choice df min_move max_move eval_bin_size
       min_positions_per_eval_bin =
     (let df_filtered = move_filter min_move max_move df
      in if df_filtered = [] then Inl NoRowsAfterMoveFilter
         else (let df_centipawns = centipawns df_filtered
               in if df_centipawns = [] then Inl NoCentipawnRows
                  else (case balance_primary choice df_centipawns of
                          Inl e \<Rightarrow> Inl e
                        | Inr df_balanced_primary \<Rightarrow>
                            balance_eval_bins choice eval_bin_size min_positions_per_eval_bin
                              df_balanced_primary)))"

definition filter_balance_normalize_data ::
  "sampler \<Rightarrow> feature_record list \<Rightarrow> int \<Rightarrow> int \<Rightarrow> int \<Rightarrow> int \<Rightarrow> int \<Rightarrow> error + normalized_record list" where
  "filter_balance_normalize_data choice df min_move max_move eval_bin_size
       min_positions_per_eval_bin eval_capping_threshold =
     (let df_filtered = move_filter min_move max_move df
      in if df_filtered = [] then Inl NoRowsAfterMoveFilter
         else (let df_centipawns = centipawns df_filtered
               in if df_centipawns = [] then Inl NoCentipawnRows
                  else (let df_centipawns = capping_filter eval_capping_threshold df_centipawns
                        in if df_centipawns = [] then Inl NoRowsAfterCapping
                           else (case balance_primary choice df_centipawns of
                                   Inl e \<Rightarrow> Inl e
                                 | Inr df_balanced_primary \<Rightarrow>
                                     (case balance_eval_bins choice eval_bin_size
                                             min_positions_per_eval_bin df_balanced_primary of
                                        Inl e \<Rightarrow> Inl e
                                      | Inr df_final_balanced \<Rightarrow>
                                          normalize_evaluation df_final_balanced)))))"

subsection \<open>Notions used in the statements\<close>

text \<open>The rows of a table that carry a given (side-to-move, outcome) pair.\<close>

definition group_rows :: "int \<times> win_loss \<Rightarrow> feature_record list \<Rightarrow> feature_record list" where
  "group_rows name df = filter (\<lambda>r. group_name r = name) df"

text \<open>
  The groups of the specification, written from its words and not from the grouping
  key of the code: the outcome of a row follows strictly from the sign of its
  evaluation, and a (side-to-move, outcome) group holds the rows with that value of the
  side-to-move flag and that outcome.
\<close>

definition spec_outcome :: "int \<Rightarrow> win_loss" where
  "spec_outcome e = (if e > 0 then white_winning else if e < 0 then black_winning else neutral)"

definition spec_group :: "int \<Rightarrow> win_loss \<Rightarrow> feature_record list \<Rightarrow> feature_record list" where
  "spec_group side outcome df =
     filter (\<lambda>r. is_white_to_move r = side \<and> spec_outcome (evaluation r) = outcome) df"

text \<open>The sizes of the groups of a table that have at least one row.\<close>

definition nonempty_group_sizes :: "feature_record list \<Rightarrow> nat set" where
  "nonempty_group_sizes df =
     (\<lambda>r. length (spec_group (is_white_to_move r) (spec_outcome (evaluation r)) df)) ` set df"

text \<open>
  The bins of the specification: the bucket of an evaluation is its floor division by
  the bin width.
\<close>

definition spec_bucket_rows :: "int \<Rightarrow> int \<Rightarrow> feature_record list \<Rightarrow> feature_record list" where
  "spec_bucket_rows eval_bin_size k df = filter (\<lambda>r. evaluation r div eval_bin_size = k) df"

text \<open>The rows of a table whose evaluation gets the label \<open>b\<close> under the bin edges \<open>bins\<close>.\<close>

definition bin_rows :: "int list \<Rightarrow> nat \<Rightarrow> feature_record list \<Rightarrow> feature_record list" where
  "bin_rows bins b df = filter (\<lambda>r. cut_label bins (evaluation r) = Some b) df"

subsection \<open>Example inputs\<close>

text \<open>A sampler that draws the leading positions, and a row given by the three columns the filters read.\<close>

definition leading_positions :: sampler where
  "leading_positions seed N n = [0..<n]"

text \<open>A sampler that agrees with the first one under seed 42 only.\<close>

definition other_sampler :: sampler where
  "other_sampler seed N n = (if seed = 42 then [0..<n] else rev [N - n..<N])"

definition example_row :: "int \<Rightarrow> int \<Rightarrow> int \<Rightarrow> feature_record" where
  "example_row white fullmove eval =
     \<lparr> squares = replicate 64 0,
       is_white_to_move = white,
       is_black_to_move = 1 - white,
       white_kingside_castling = 0,
       white_queenside_castling = 0,
       black_kingside_castling = 0,
       black_queenside_castling = 0,
       en_passant_available = 0,
       halfmove_clock_col = 0,
       fullmove_counter = fullmove,
       evaluation = eval \<rparr>"

definition no_board :: "string \<Rightarrow> board option" where
  "no_board fen = None"

definition six_groups_table :: "feature_record list" where
  "six_groups_table =
     [example_row 1 10 50, example_row 0 12 0, example_row 1 10 150, example_row 0 9 (- 5),
      example_row 1 20 0, example_row 0 12 0, example_row 1 7 (- 20), example_row 0 30 30]"

text \<open>A table that the balancing of the primary groups leaves unchanged: two groups of three rows.\<close>

definition balanced_table :: "feature_record list" where
  "balanced_table =
     [example_row 0 10 (- 250), example_row 0 10 (- 220), example_row 0 10 (- 30),
      example_row 1 10 50, example_row 1 10 60, example_row 1 10 150]"

definition example_table :: "feature_record list" where
  "example_table =
     [example_row 1 10 (- 30), example_row 1 10 (- 250), example_row 1 10 (- 220),
      example_row 1 10 50, example_row 1 10 150]"

section \<open>Properties of the preprocessing\<close>

subsection \<open>The evaluation parser\<close>























subsection \<open>Rows with an invalid position\<close>

lemma parse_fen_invalid:
  "cb fen = None \<Longrightarrow> parse_fen cb fen = (replicate 64 0 @ replicate 9 0, [InvalidFen fen])"
  by (simp add: parse_fen_def numeral_eq_Suc)

lemma default_columns:
  "assign_columns ((replicate 64 0 @ replicate 9 0) @ [e]) =
     \<lparr> squares = replicate 64 0, is_white_to_move = 0, is_black_to_move = 0,
       white_kingside_castling = 0, white_queenside_castling = 0,
       black_kingside_castling = 0, black_queenside_castling = 0,
       en_passant_available = 0, halfmove_clock_col = 0, fullmove_counter = 0,
       evaluation = e \<rparr>"
  by (simp add: assign_columns_def nth_append)

text \<open>The decoding of the FEN column stops at the first cell that is not a \<^verbatim>\<open>str\<close>.\<close>

lemma fen_column_non_text:
  "collect (map (\<lambda>row. case fst row of
                         Text fen_string \<Rightarrow> Inr (parse_fen cb fen_string)
                       | NonText _ \<Rightarrow> Inl AttributeError)
                (before @ (NonText t, e) # after)) = Inl AttributeError"
  by (induction before) (simp_all split: cell.splits)

lemma fen_column_text:
  "\<forall>row \<in> set chunk. \<exists>fen. fst row = Text fen \<Longrightarrow>
   collect (map (\<lambda>row. case fst row of
                         Text fen_string \<Rightarrow> Inr (parse_fen cb fen_string)
                       | NonText _ \<Rightarrow> Inl AttributeError) chunk) =
     Inr (map (\<lambda>row. parse_fen cb (py_str (fst row))) chunk)"
  by (induction chunk) (auto simp: py_str_def)

lemma process_chunk_non_text:
  "process_chunk cb (before @ (NonText t, e) # after) = Inl AttributeError"
  unfolding process_chunk_def fen_column_non_text by simp

text \<open>The row written for an input row, and the warnings of a chunk, when every FEN cell is text.\<close>

lemma process_chunk_text:
  assumes "chunk \<noteq> []" and "\<forall>row \<in> set chunk. \<exists>fen. fst row = Text fen"
  shows "process_chunk cb chunk =
     Inr (map (\<lambda>row. assign_columns (fst (parse_fen cb (py_str (fst row))) @
                                      [fst (parse_evaluation (py_str (snd row)))])) chunk,
          concat (map (\<lambda>row. snd (parse_fen cb (py_str (fst row)))) chunk) @
          concat (map (\<lambda>row. snd (parse_evaluation (py_str (snd row)))) chunk))"
  unfolding process_chunk_def fen_column_text[OF assms(2)] using assms(1)
  by (simp add: Let_def zip_map_map zip_same_conv_map comp_def)

lemma run_stays_stopped:
  "foldl (\<lambda>state chunk.
            case state of
              Inl e \<Rightarrow> Inl e
            | Inr (written, logged) \<Rightarrow>
                (case process_chunk cb chunk of
                   Inl e \<Rightarrow> Inl e
                 | Inr (rows, warnings) \<Rightarrow> Inr (written @ rows, logged @ warnings)))
         (Inl e) chunks = Inl e"
  by (induction chunks) simp_all

lemma run_text:
  assumes "\<forall>chunk \<in> set chunks. chunk \<noteq> [] \<and> (\<forall>row \<in> set chunk. \<exists>fen. fst row = Text fen)"
  shows "foldl (\<lambda>state chunk.
            case state of
              Inl e \<Rightarrow> Inl e
            | Inr (written, logged) \<Rightarrow>
                (case process_chunk cb chunk of
                   Inl e \<Rightarrow> Inl e
                 | Inr (rows, warnings) \<Rightarrow> Inr (written @ rows, logged @ warnings)))
         (Inr (written0, logged0)) chunks =
     Inr (written0 @ map (\<lambda>row. assign_columns (fst (parse_fen cb (py_str (fst row))) @
                                         [fst (parse_evaluation (py_str (snd row)))]))
                     (concat chunks),
          logged0 @ concat (map (\<lambda>chunk.
                  concat (map (\<lambda>row. snd (parse_fen cb (py_str (fst row)))) chunk) @
                  concat (map (\<lambda>row. snd (parse_evaluation (py_str (snd row)))) chunk)) chunks))"
  using assms
proof (induction chunks arbitrary: written0 logged0)
  case Nil
  then show ?case by simp
next
  case (Cons c cs)
  from Cons.prems have c: "c \<noteq> []" "\<forall>row \<in> set c. \<exists>fen. fst row = Text fen"
    and cs: "\<forall>chunk \<in> set cs. chunk \<noteq> [] \<and> (\<forall>row \<in> set chunk. \<exists>fen. fst row = Text fen)"
    by simp_all
  show ?case
    by (simp add: process_chunk_text[OF c] Cons.IH[OF cs])
qed

text \<open>
  When every FEN cell of the input is text and no chunk is empty, the run writes one
  row per input row; the row of a description that the chess library rejects is the
  default row next to the parsed evaluation, and the log names the description.
\<close>

lemma invalid_text_position_default_row:
  assumes all_text: "\<forall>chunk \<in> set chunks. chunk \<noteq> [] \<and> (\<forall>row \<in> set chunk. \<exists>fen. fst row = Text fen)"
      and i: "i < length (concat chunks)"
      and fen: "fst (concat chunks ! i) = Text fen"
      and bad: "cb fen = None"
  shows "\<exists>written logged. process_chess_data cb chunks = Inr (written, logged) \<and>
           length written = length (concat chunks) \<and>
           written ! i =
             \<lparr> squares = replicate 64 0, is_white_to_move = 0, is_black_to_move = 0,
               white_kingside_castling = 0, white_queenside_castling = 0,
               black_kingside_castling = 0, black_queenside_castling = 0,
               en_passant_available = 0, halfmove_clock_col = 0, fullmove_counter = 0,
               evaluation = fst (parse_evaluation (py_str (snd (concat chunks ! i)))) \<rparr> \<and>
           InvalidFen fen \<in> set logged"
proof -
  let ?row = "concat chunks ! i"
  let ?file = "map (\<lambda>row. assign_columns (fst (parse_fen cb (py_str (fst row))) @
                                         [fst (parse_evaluation (py_str (snd row)))]))
                   (concat chunks)"
  let ?log = "concat (map (\<lambda>chunk.
                  concat (map (\<lambda>row. snd (parse_fen cb (py_str (fst row)))) chunk) @
                  concat (map (\<lambda>row. snd (parse_evaluation (py_str (snd row)))) chunk)) chunks)"
  have run: "process_chess_data cb chunks = Inr (?file, ?log)"
    unfolding process_chess_data_def run_text[OF all_text] by simp
  have pf: "parse_fen cb (py_str (fst ?row)) = (replicate 64 0 @ replicate 9 0, [InvalidFen fen])"
    using parse_fen_invalid[of cb fen, OF bad] fen by (simp add: py_str_def)
  have row: "?file ! i =
      assign_columns ((replicate 64 0 @ replicate 9 0) @ [fst (parse_evaluation (py_str (snd ?row)))])"
    using i pf by simp
  have "?row \<in> set (concat chunks)" using i by (rule nth_mem)
  then obtain c where c: "c \<in> set chunks" "?row \<in> set c" by auto
  have "InvalidFen fen \<in> set (snd (parse_fen cb (py_str (fst ?row))))"
    using pf by simp
  with c have log: "InvalidFen fen \<in> set ?log" by auto
  from run row log show ?thesis
    unfolding default_columns by simp
qed

text \<open>
  C8: a row whose board description is missing stops the run. The reader hands an
  empty (or NA-looking) FEN cell to the decoder as a float and not as a string; the
  chess library raises \<^verbatim>\<open>AttributeError\<close> on it, the decoder catches \<^verbatim>\<open>ValueError\<close> only,
  and the chunk that holds the row is not written, whatever the rows before and after
  it in the chunk; the run over the whole input ends with an exception, whatever the
  chunks before and after.
\<close>

theorem missing_fen_cell_aborts:
  "process_chunk chess_Board (before @ (NonText t, e) # after) = Inl AttributeError \<and>
   process_chess_data chess_Board [before @ (NonText t, e) # after] = Inl AttributeError \<and>
   (\<exists>err. process_chess_data chess_Board
             (earlier @ (before @ (NonText t, e) # after) # later) = Inl err)"
proof -
  let ?c = "before @ (NonText t, e) # after"
  let ?step = "\<lambda>state chunk.
            case state of
              Inl e \<Rightarrow> Inl e
            | Inr (written, logged) \<Rightarrow>
                (case process_chunk chess_Board chunk of
                   Inl e \<Rightarrow> Inl e
                 | Inr (rows, warnings) \<Rightarrow> Inr (written @ rows, logged @ warnings))"
  have a: "process_chunk chess_Board ?c = Inl AttributeError"
    by (rule process_chunk_non_text)
  have b: "process_chess_data chess_Board [?c] = Inl AttributeError"
    unfolding process_chess_data_def by (simp add: a)
  have "\<exists>err. ?step (foldl ?step (Inr ([], [])) earlier) ?c = Inl err"
    by (cases "foldl ?step (Inr ([], [])) earlier") (auto simp: a)
  then obtain err where "?step (foldl ?step (Inr ([], [])) earlier) ?c = Inl err" ..
  then have "process_chess_data chess_Board (earlier @ ?c # later) = Inl err"
    unfolding process_chess_data_def by (simp add: run_stays_stopped)
  with a b show ?thesis by blast
qed

theorem missing_fen_cell_aborts_witness:
  "process_chunk no_board
     [(Text ''8/8/8/8/8/8/8/8 w - - 0 1'', Text ''#+1''), (NonText ''nan'', Text ''-7'')]
     = Inl AttributeError \<and>
   process_chess_data no_board [[(NonText ''nan'', NonText ''12'')]] = Inl AttributeError \<and>
   (\<exists>err. process_chess_data no_board
             [[(Text ''x'', NonText ''5'')], [(NonText ''nan'', NonText ''12'')],
              [(Text ''y'', Text ''#+1'')]]
           = Inl err)"
  using missing_fen_cell_aborts
          [of no_board "[(Text ''8/8/8/8/8/8/8/8 w - - 0 1'', Text ''#+1'')]" "''nan''"
              "Text ''-7''" "[]" "[]" "[]"]
        missing_fen_cell_aborts
          [of no_board "[]" "''nan''" "NonText ''12''" "[]" "[[(Text ''x'', NonText ''5'')]]"
              "[[(Text ''y'', Text ''#+1'')]]"]
  by simp

section \<open>Properties of the balancing stages\<close>


lemma collect_map_Inr:
  "collect (map g ks) = Inr dfs \<Longrightarrow> list_all2 (\<lambda>k d. g k = Inr d) ks dfs"
proof (induction ks arbitrary: dfs)
  case Nil
  then show ?case by simp
next
  case (Cons k ks)
  then show ?case by (auto split: sum.splits)
qed

lemma filter_concat_absent:
  fixes dfs :: "'a list list"
  assumes "list_all2 R ks dfs"
      and "\<And>k d. R k d \<Longrightarrow> \<forall>r \<in> set d. key r = p k"
      and "k' \<notin> p ` set ks"
  shows "filter (\<lambda>r. key r = k') (concat dfs) = []"
  using assms
proof (induction rule: list_all2_induct)
  case Nil
  then show ?case by simp
next
  case (Cons k ks d dfs)
  from Cons.prems(1)[OF Cons.hyps(1)] Cons.prems(2)
  have "filter (\<lambda>r. key r = k') d = []" by (auto simp: filter_empty_conv)
  moreover have "filter (\<lambda>r. key r = k') (concat dfs) = []"
    using Cons by simp
  ultimately show ?case by simp
qed

lemma filter_concat_present:
  fixes dfs :: "'a list list"
  assumes "list_all2 R ks dfs"
      and "distinct (map p ks)"
      and "\<And>k d. R k d \<Longrightarrow> \<forall>r \<in> set d. key r = p k"
      and "k' \<in> p ` set ks"
  shows "\<exists>k d. k \<in> set ks \<and> p k = k' \<and> R k d \<and> filter (\<lambda>r. key r = k') (concat dfs) = d"
  using assms
proof (induction rule: list_all2_induct)
  case Nil
  then show ?case by simp
next
  case (Cons k ks d dfs)
  have keys: "\<forall>r \<in> set d. key r = p k" using Cons.prems(2)[OF Cons.hyps(1)] .
  show ?case
  proof (cases "p k = k'")
    case True
    with Cons.prems(1) have "k' \<notin> p ` set ks" by auto
    with Cons.hyps(2) Cons.prems(2)
    have "filter (\<lambda>r. key r = k') (concat dfs) = []"
      by (rule filter_concat_absent)
    moreover from keys True have "filter (\<lambda>r. key r = k') d = d"
      by (simp add: filter_id_conv)
    ultimately show ?thesis using True Cons.hyps(1) by auto
  next
    case False
    with keys have "filter (\<lambda>r. key r = k') d = []" by (auto simp: filter_empty_conv)
    moreover from False Cons.prems have "k' \<in> p ` set ks" "distinct (map p ks)" by auto
    then obtain k2 d2 where "k2 \<in> set ks" "p k2 = k'" "R k2 d2"
      "filter (\<lambda>r. key r = k') (concat dfs) = d2"
      using Cons.IH Cons.prems(2) by blast
    ultimately show ?thesis by auto
  qed
qed

lemma sample_valid:
  assumes "valid_sampler choice" "sample choice df n seed = Inr out"
  shows "0 \<le> n \<and> length out = nat n \<and> set out \<subseteq> set df \<and> mset out \<subseteq># mset df"
proof -
  let ?is = "choice seed (length df) (nat n)"
  from assms(2) have n: "0 \<le> n" "n \<le> int (length df)"
    and out: "out = map (\<lambda>i. df ! i) ?is"
    by (auto simp: sample_def split: if_splits)
  from n have "nat n \<le> length df" by simp
  with assms(1) have len: "length ?is = nat n"
    and dist: "distinct ?is"
    and rng: "\<forall>i \<in> set ?is. i < length df"
    by (simp_all add: valid_sampler_def)
  from dist have "mset ?is = mset_set (set ?is)" by (simp add: mset_set_set)
  moreover have "mset_set (set ?is) \<subseteq># mset_set {0..<length df}"
    by (rule subset_imp_msubset_mset_set) (use rng in auto)
  ultimately have "mset ?is \<subseteq># mset_set {0..<length df}" by simp
  then have "image_mset (\<lambda>i. df ! i) (mset ?is) \<subseteq>#
             image_mset (\<lambda>i. df ! i) (mset_set {0..<length df})"
    by (rule image_mset_subseteq_mono)
  moreover have "mset df = mset (map (\<lambda>i. df ! i) [0..<length df])"
    by (simp only: map_nth)
  then have "mset df = image_mset (\<lambda>i. df ! i) (mset_set {0..<length df})" by simp
  moreover have "mset out = image_mset (\<lambda>i. df ! i) (mset ?is)" by (simp add: out)
  ultimately have sub: "mset out \<subseteq># mset df" by simp
  from len rng n out have "length out = nat n" "set out \<subseteq> set df" by auto
  with n sub show ?thesis by simp
qed

lemma groupby_names:
  "map fst (groupby df) = sort_key name_order (remdups (map group_name df))"
  by (simp add: groupby_def comp_def)

lemma groupby_distinct: "distinct (map fst (groupby df))"
  by (simp add: groupby_names)

lemma groupby_set: "fst ` set (groupby df) = group_name ` set df"
proof -
  have "fst ` set (groupby df) = set (map fst (groupby df))" by simp
  also have "\<dots> = group_name ` set df" by (simp only: groupby_names set_sort set_remdups set_map)
  finally show ?thesis .
qed

lemma groupby_group:
  "ng \<in> set (groupby df) \<Longrightarrow> snd ng = filter (\<lambda>r. group_name r = fst ng) df \<and> snd ng \<noteq> []"
  by (auto simp: groupby_def filter_empty_conv)

lemma min_count_le:
  "foldl (\<lambda>m ng. if enat (length (snd ng)) < m then enat (length (snd ng)) else m) a xs \<le> a \<and>
   (\<forall>x \<in> set xs. foldl (\<lambda>m ng. if enat (length (snd ng)) < m then enat (length (snd ng)) else m) a xs
        \<le> enat (length (snd x)))"
proof (induction xs arbitrary: a)
  case Nil
  then show ?case by simp
next
  case (Cons x xs)
  let ?a' = "if enat (length (snd x)) < a then enat (length (snd x)) else a"
  have "?a' \<le> a" "?a' \<le> enat (length (snd x))" by auto
  with Cons.IH[of ?a'] show ?case by (auto intro: order_trans)
qed

lemma min_count_attained:
  "foldl (\<lambda>m ng. if enat (length (snd ng)) < m then enat (length (snd ng)) else m) a xs = a \<or>
   (\<exists>x \<in> set xs. foldl (\<lambda>m ng. if enat (length (snd ng)) < m then enat (length (snd ng)) else m) a xs
        = enat (length (snd x)))"
proof (induction xs arbitrary: a)
  case Nil
  then show ?case by simp
next
  case (Cons x xs)
  let ?a' = "if enat (length (snd x)) < a then enat (length (snd x)) else a"
  from Cons.IH[of ?a'] show ?case by (auto split: if_splits)
qed

lemma min_primary_group_count_Min:
  assumes "grouped \<noteq> []"
  shows "min_primary_group_count grouped = enat (Min ((\<lambda>ng. length (snd ng)) ` set grouped))"
proof -
  let ?m = "min_primary_group_count grouped"
  from assms obtain x0 where "x0 \<in> set grouped" by (cases grouped) auto
  with min_count_le[of \<infinity> grouped] have "?m \<le> enat (length (snd x0))"
    by (simp add: min_primary_group_count_def)
  then have "?m \<noteq> \<infinity>" by (cases ?m) auto
  with min_count_attained[of \<infinity> grouped]
  obtain x where x: "x \<in> set grouped" "?m = enat (length (snd x))"
    by (auto simp: min_primary_group_count_def)
  have "\<forall>y \<in> set grouped. length (snd x) \<le> length (snd y)"
    using min_count_le[of \<infinity> grouped] x by (auto simp: min_primary_group_count_def)
  with x(1) have "Min ((\<lambda>ng. length (snd ng)) ` set grouped) = length (snd x)"
    by (intro Min_eqI) auto
  with x(2) show ?thesis by simp
qed


lemma groupby_sizes:
  "(\<lambda>ng. length (snd ng)) ` set (groupby df) =
   (\<lambda>nm. length (group_rows nm df)) ` group_name ` set df"
proof -
  have "set (groupby df) = (\<lambda>name. (name, group_rows name df)) ` group_name ` set df"
    by (simp add: groupby_def group_rows_def)
  then show ?thesis by (simp add: image_image)
qed

lemma balance_primary_pieces:
  assumes vs: "valid_sampler choice" and ok: "balance_primary choice df = Inr out"
  shows "\<exists>dfs. out = concat dfs \<and>
           list_all2 (\<lambda>ng d. length d = Min ((\<lambda>nm. length (group_rows nm df)) ` group_name ` set df) \<and>
                             set d \<subseteq> set (snd ng) \<and> mset d \<subseteq># mset (snd ng) \<and>
                             (length (snd ng) = Min ((\<lambda>nm. length (group_rows nm df)) ` group_name ` set df)
                                \<longrightarrow> d = snd ng))
                     (groupby df) dfs"
proof -
  let ?grouped = "groupby df"
  let ?m = "min_primary_group_count ?grouped"
  let ?M = "Min ((\<lambda>nm. length (group_rows nm df)) ` group_name ` set df)"
  define g where "g = (\<lambda>ng :: (int \<times> win_loss) \<times> feature_record list.
      if enat (length (snd ng)) > ?m then sample choice (snd ng) (int (the_enat ?m)) 42
      else Inr (snd ng))"
  from ok obtain dfs where c: "collect (map g ?grouped) = Inr dfs" and p: "pd_concat dfs = Inr out"
    by (auto simp: balance_primary_def Let_def g_def split: if_splits sum.splits)
  from p have ne: "dfs \<noteq> []" and out: "out = concat dfs"
    by (auto simp: pd_concat_def split: if_splits)
  from c have la: "list_all2 (\<lambda>ng d. g ng = Inr d) ?grouped dfs" by (rule collect_map_Inr)
  with ne have "?grouped \<noteq> []" by auto
  then have m: "?m = enat ?M"
    by (simp add: min_primary_group_count_Min groupby_sizes)
  have step: "length d = ?M \<and> set d \<subseteq> set (snd ng) \<and> mset d \<subseteq># mset (snd ng) \<and> (length (snd ng) = ?M \<longrightarrow> d = snd ng)"
    if "ng \<in> set ?grouped" "g ng = Inr d" for ng d
  proof (cases "length (snd ng) > ?M")
    case True
    with that(2) m have "sample choice (snd ng) (int ?M) 42 = Inr d" by (simp add: g_def)
    from sample_valid[OF vs this] True show ?thesis by simp
  next
    case False
    with that(2) m have d: "d = snd ng" by (simp add: g_def)
    have "length (snd ng) \<in> (\<lambda>ng. length (snd ng)) ` set ?grouped" using that(1) by simp
    then have "?M \<le> length (snd ng)" by (simp add: groupby_sizes)
    with False d show ?thesis by simp
  qed
  have "list_all2 (\<lambda>ng d. length d = ?M \<and> set d \<subseteq> set (snd ng) \<and> mset d \<subseteq># mset (snd ng) \<and>
          (length (snd ng) = ?M \<longrightarrow> d = snd ng)) ?grouped dfs"
    using la by (rule list.rel_mono_strong) (use step in blast)
  with out show ?thesis by blast
qed

text \<open>
  The groups of the code, by its own grouping key: when the balancing succeeds, every
  key that occurs in the input has in the output as many rows as the smallest occurring
  key has in the input, all of them rows of that key in the input, none taken more
  often than it occurs there; a key already at that minimum keeps its rows unchanged; a
  key that does not occur in the input has no row in the output.
\<close>

lemma balance_primary_groups:
  assumes vs: "valid_sampler choice" and ok: "balance_primary choice df = Inr out"
  shows "(\<forall>name \<in> group_name ` set df.
            length (group_rows name out) =
              Min ((\<lambda>nm. length (group_rows nm df)) ` group_name ` set df) \<and>
            mset (group_rows name out) \<subseteq># mset (group_rows name df) \<and>
            (length (group_rows name df) =
               Min ((\<lambda>nm. length (group_rows nm df)) ` group_name ` set df)
             \<longrightarrow> group_rows name out = group_rows name df)) \<and>
         (\<forall>name. name \<notin> group_name ` set df \<longrightarrow> group_rows name out = [])"
proof -
  let ?M = "Min ((\<lambda>nm. length (group_rows nm df)) ` group_name ` set df)"
  let ?R = "\<lambda>(ng :: (int \<times> win_loss) \<times> feature_record list) d. length d = ?M \<and> set d \<subseteq> set (snd ng) \<and> mset d \<subseteq># mset (snd ng) \<and>
              (length (snd ng) = ?M \<longrightarrow> d = snd ng) \<and> ng \<in> set (groupby df)"
  from balance_primary_pieces[OF vs ok] obtain dfs where out: "out = concat dfs"
    and la0: "list_all2 (\<lambda>ng d. length d = ?M \<and> set d \<subseteq> set (snd ng) \<and> mset d \<subseteq># mset (snd ng) \<and>
                (length (snd ng) = ?M \<longrightarrow> d = snd ng)) (groupby df) dfs"
    by blast
  from la0 have la: "list_all2 ?R (groupby df) dfs"
    by (rule list.rel_mono_strong) simp
  have keys: "\<forall>r \<in> set d. group_name r = fst ng" if "?R ng d" for ng d
    using that groupby_group[of ng df] by auto
  have present: "length (group_rows name out) = ?M \<and>
        mset (group_rows name out) \<subseteq># mset (group_rows name df) \<and>
        (length (group_rows name df) = ?M \<longrightarrow> group_rows name out = group_rows name df)"
    if "name \<in> group_name ` set df" for name
  proof -
    from that have "name \<in> fst ` set (groupby df)" by (simp add: groupby_set)
    from filter_concat_present[of ?R "groupby df" dfs fst group_name, OF la groupby_distinct keys this]
    obtain ng d where ng: "ng \<in> set (groupby df)" "fst ng = name" "?R ng d"
      "filter (\<lambda>r. group_name r = name) (concat dfs) = d"
      by blast
    from groupby_group[OF ng(1)] ng(2) have "snd ng = group_rows name df"
      by (simp add: group_rows_def)
    with ng(3,4) out show ?thesis by (simp add: group_rows_def)
  qed
  have absent: "group_rows name out = []" if "name \<notin> group_name ` set df" for name
  proof -
    from that have "name \<notin> fst ` set (groupby df)" by (simp add: groupby_set)
    from filter_concat_absent[of ?R "groupby df" dfs group_name fst, OF la keys this] out
    show ?thesis by (simp add: group_rows_def)
  qed
  from present absent show ?thesis by blast
qed

lemma group_name_spec: "group_name r = (is_white_to_move r, spec_outcome (evaluation r))"
  by (simp add: group_name_def win_loss_category_def spec_outcome_def Let_def)

lemma spec_group_rows: "spec_group side outcome df = group_rows (side, outcome) df"
  by (simp add: spec_group_def group_rows_def group_name_spec)

lemma nonempty_group_sizes_names:
  "nonempty_group_sizes df = (\<lambda>nm. length (group_rows nm df)) ` group_name ` set df"
  by (simp add: nonempty_group_sizes_def image_image spec_group_rows group_name_spec)

lemma spec_group_occurs:
  "(spec_group side outcome df \<noteq> []) = ((side, outcome) \<in> group_name ` set df)"
  by (auto simp: spec_group_def filter_empty_conv group_name_spec image_iff)

text \<open>
  C4: when the balancing of the primary groups succeeds, every (side-to-move, outcome)
  group that has a row in the input has in the output exactly as many rows as the
  smallest non-empty group has in the input; the rows kept for a group are rows of that
  group in the input, none taken more often than it occurs there; a group already at
  that minimum keeps its rows unchanged; a group without rows in the input has none in
  the output. The groups are those of the specification: the side-to-move flag and the
  sign of the evaluation.
\<close>

theorem primary_groups_balanced:
  assumes vs: "valid_sampler choice" and ok: "balance_primary choice df = Inr out"
  shows "(\<forall>side outcome. spec_group side outcome df \<noteq> [] \<longrightarrow>
            length (spec_group side outcome out) = Min (nonempty_group_sizes df) \<and>
            mset (spec_group side outcome out) \<subseteq># mset (spec_group side outcome df) \<and>
            (length (spec_group side outcome df) = Min (nonempty_group_sizes df)
             \<longrightarrow> spec_group side outcome out = spec_group side outcome df)) \<and>
         (\<forall>side outcome. spec_group side outcome df = [] \<longrightarrow> spec_group side outcome out = [])"
proof -
  let ?M = "Min ((\<lambda>nm. length (group_rows nm df)) ` group_name ` set df)"
  from balance_primary_groups[OF vs ok]
  have present: "\<forall>name \<in> group_name ` set df.
            length (group_rows name out) = ?M \<and>
            mset (group_rows name out) \<subseteq># mset (group_rows name df) \<and>
            (length (group_rows name df) = ?M \<longrightarrow> group_rows name out = group_rows name df)"
    and absent: "\<forall>name. name \<notin> group_name ` set df \<longrightarrow> group_rows name out = []"
    by blast+
  have a: "length (spec_group side outcome out) = Min (nonempty_group_sizes df) \<and>
        mset (spec_group side outcome out) \<subseteq># mset (spec_group side outcome df) \<and>
        (length (spec_group side outcome df) = Min (nonempty_group_sizes df)
           \<longrightarrow> spec_group side outcome out = spec_group side outcome df)"
    if "spec_group side outcome df \<noteq> []" for side outcome
  proof -
    from that have "(side, outcome) \<in> group_name ` set df" by (simp only: spec_group_occurs)
    with present show ?thesis
      unfolding spec_group_rows nonempty_group_sizes_names by (rule bspec)
  qed
  have b: "spec_group side outcome out = []" if "spec_group side outcome df = []" for side outcome
  proof -
    from that have "(side, outcome) \<notin> group_name ` set df"
      using spec_group_occurs[of side outcome df] by simp
    with absent show ?thesis unfolding spec_group_rows by blast
  qed
  from a b show ?thesis by blast
qed

theorem primary_groups_balanced_witness:
  "valid_sampler leading_positions \<and>
   balance_primary leading_positions six_groups_table =
     Inr [example_row 0 9 (- 5), example_row 0 12 0, example_row 0 30 30,
          example_row 1 7 (- 20), example_row 1 20 0, example_row 1 10 50] \<and>
   Min (nonempty_group_sizes six_groups_table) = 1 \<and>
   length (spec_group 1 white_winning six_groups_table) = 2 \<and>
   spec_group 1 white_winning
     [example_row 0 9 (- 5), example_row 0 12 0, example_row 0 30 30,
      example_row 1 7 (- 20), example_row 1 20 0, example_row 1 10 50] = [example_row 1 10 50] \<and>
   length (spec_group 0 neutral six_groups_table) = 2 \<and>
   length (spec_group 0 neutral
     [example_row 0 9 (- 5), example_row 0 12 0, example_row 0 30 30,
      example_row 1 7 (- 20), example_row 1 20 0, example_row 1 10 50]) = 1 \<and>
   length (spec_group 0 black_winning six_groups_table) = 1 \<and>
   spec_group 0 black_winning
     [example_row 0 9 (- 5), example_row 0 12 0, example_row 0 30 30,
      example_row 1 7 (- 20), example_row 1 20 0, example_row 1 10 50] =
   spec_group 0 black_winning six_groups_table \<and>
   balance_primary leading_positions example_table =
     Inr [example_row 1 10 (- 30), example_row 1 10 (- 250),
          example_row 1 10 50, example_row 1 10 150] \<and>
   spec_group 0 neutral example_table = [] \<and>
   spec_group 0 neutral
     [example_row 1 10 (- 30), example_row 1 10 (- 250),
      example_row 1 10 50, example_row 1 10 150] = []"
proof -
  let ?out = "[example_row 0 9 (- 5), example_row 0 12 0, example_row 0 30 30,
               example_row 1 7 (- 20), example_row 1 20 0, example_row 1 10 50]"
  let ?out2 = "[example_row 1 10 (- 30), example_row 1 10 (- 250),
                example_row 1 10 50, example_row 1 10 150]"
  have a: "valid_sampler leading_positions"
    by (simp add: valid_sampler_def leading_positions_def)
  have b: "balance_primary leading_positions six_groups_table = Inr ?out"
    by code_simp
  have b2: "balance_primary leading_positions example_table = Inr ?out2"
    by code_simp
  have c: "Min (nonempty_group_sizes six_groups_table) = 1"
    "length (spec_group 1 white_winning six_groups_table) = 2"
    "spec_group 1 white_winning ?out = [example_row 1 10 50]"
    "length (spec_group 0 neutral six_groups_table) = 2"
    "length (spec_group 0 black_winning six_groups_table) = 1"
    "spec_group 0 neutral example_table = []"
    by code_simp+
  have ne: "spec_group 0 neutral six_groups_table \<noteq> []"
    "spec_group 0 black_winning six_groups_table \<noteq> []"
    using c(4,5) by auto
  from primary_groups_balanced[OF a b] ne c(1,5) have
    d: "length (spec_group 0 neutral ?out) = 1"
       "spec_group 0 black_winning ?out = spec_group 0 black_winning six_groups_table"
    by metis+
  from primary_groups_balanced[OF a b2] c(6) have e: "spec_group 0 neutral ?out2 = []"
    by blast
  from a b b2 c d e show ?thesis by blast
qed

lemma rows_with_bin_filter:
  "map fst (filter (\<lambda>rb. snd rb = l) (zip df (map f df))) = filter (\<lambda>r. f r = l) df"
  by (induction df) simp_all

lemma rows_with_bin_cut:
  "rows_with_bin df (map (\<lambda>r. cut_label bins (evaluation r)) df) b = bin_rows bins b df"
  unfolding rows_with_bin_def bin_rows_def by (rule rows_with_bin_filter)

lemma set_map_filter_id: "set (List.map_filter (\<lambda>l. l) labels) = {b. Some b \<in> set labels}"
  by (induction labels) (auto split: option.splits)

lemma distinct_map_Some: "distinct (map Some xs) = distinct xs"
  by (simp add: distinct_map)

lemma value_counts_labels:
  "set (map fst (value_counts labels)) = {b. Some b \<in> set labels}"
proof -
  have "set (map fst (value_counts labels)) = set (List.map_filter (\<lambda>l. l) labels)"
    by (simp add: value_counts_def Let_def image_image)
  then show ?thesis by (simp only: set_map_filter_id)
qed

lemma value_counts_distinct: "distinct (map fst (value_counts labels))"
proof -
  let ?present = "rev (remdups (rev (List.map_filter (\<lambda>l. l) labels)))"
  let ?xs = "map (\<lambda>b. (b, count_list labels (Some b))) ?present"
  have "map fst ?xs = ?present" by (simp add: comp_def)
  then have "distinct (map fst ?xs)" by simp
  then have "distinct ?xs \<and> inj_on fst (set ?xs)" by (simp only: distinct_map)
  then have "distinct (sort_key (\<lambda>bc. - int (snd bc)) ?xs) \<and>
             inj_on fst (set (sort_key (\<lambda>bc. - int (snd bc)) ?xs))"
    by (simp only: distinct_sort set_sort)
  then have "distinct (map fst (sort_key (\<lambda>bc. - int (snd bc)) ?xs))"
    by (simp only: distinct_map)
  then show ?thesis by (simp add: value_counts_def Let_def)
qed

lemma balance_eval_bins_pieces:
  assumes vs: "valid_sampler choice"
      and edges: "eval_bin_edges w df = Inr bins"
      and ok: "balance_eval_bins choice w target df = Inr out"
  shows "\<exists>dfs. out = concat dfs \<and> 0 \<le> target \<and>
           list_all2 (\<lambda>bc d. int (length d) \<le> target \<and>
                             set d \<subseteq> set (bin_rows bins (fst bc) df) \<and>
       mset d \<subseteq># mset (bin_rows bins (fst bc) df) \<and>
                             (int (length (bin_rows bins (fst bc) df)) \<le> target
                                \<longrightarrow> d = bin_rows bins (fst bc) df) \<and>
                             (target < int (length (bin_rows bins (fst bc) df))
                                \<longrightarrow> int (length d) = target))
                     (value_counts (map (cut_label bins) (map evaluation df))) dfs"
proof -
  let ?eval_bin = "map (cut_label bins) (map evaluation df)"
  let ?counts = "value_counts ?eval_bin"
  define g where "g = (\<lambda>bc :: nat \<times> nat.
      if int (length (bin_rows bins (fst bc) df)) > target
      then sample choice (bin_rows bins (fst bc) df) target 42
      else Inr (bin_rows bins (fst bc) df))"
  have eb: "?eval_bin = map (\<lambda>r. cut_label bins (evaluation r)) df" by simp
  from ok edges have cut: "pd_cut (map evaluation df) bins = Inr ?eval_bin"
    by (auto simp: balance_eval_bins_def pd_cut_def split: sum.splits if_splits)
  have "balance_eval_bins choice w target df =
          (if ?counts = [] then Inl NoEvalBins
           else (case collect (map g ?counts) of
                   Inl e \<Rightarrow> Inl e
                 | Inr balanced_eval_dfs \<Rightarrow> pd_concat balanced_eval_dfs))"
    unfolding balance_eval_bins_def
    by (simp add: edges cut Let_def g_def rows_with_bin_cut comp_def)
  with ok obtain dfs where ne0: "?counts \<noteq> []"
      and c: "collect (map g ?counts) = Inr dfs" and p: "pd_concat dfs = Inr out"
    by (auto split: if_splits sum.splits)
  from p have out: "out = concat dfs" by (auto simp: pd_concat_def split: if_splits)
  from c have la: "list_all2 (\<lambda>bc d. g bc = Inr d) ?counts dfs" by (rule collect_map_Inr)
  have step: "int (length d) \<le> target \<and> set d \<subseteq> set (bin_rows bins (fst bc) df) \<and>
       mset d \<subseteq># mset (bin_rows bins (fst bc) df) \<and>
       (int (length (bin_rows bins (fst bc) df)) \<le> target \<longrightarrow> d = bin_rows bins (fst bc) df) \<and>
       (target < int (length (bin_rows bins (fst bc) df)) \<longrightarrow> int (length d) = target)"
    if "g bc = Inr d" for bc d
  proof (cases "int (length (bin_rows bins (fst bc) df)) > target")
    case True
    with that have "sample choice (bin_rows bins (fst bc) df) target 42 = Inr d"
      by (simp add: g_def)
    from sample_valid[OF vs this] True show ?thesis by simp
  next
    case False
    with that show ?thesis by (simp add: g_def)
  qed
  from ne0 la obtain bc0 d0 where "g bc0 = Inr d0"
    by (cases ?counts; cases dfs) auto
  from step[OF this] have "0 \<le> target" by linarith
  moreover have "list_all2 (\<lambda>bc d. int (length d) \<le> target \<and>
       set d \<subseteq> set (bin_rows bins (fst bc) df) \<and>
       mset d \<subseteq># mset (bin_rows bins (fst bc) df) \<and>
       (int (length (bin_rows bins (fst bc) df)) \<le> target \<longrightarrow> d = bin_rows bins (fst bc) df) \<and>
       (target < int (length (bin_rows bins (fst bc) df)) \<longrightarrow> int (length d) = target))
     ?counts dfs"
    using la by (rule list.rel_mono_strong) (use step in blast)
  ultimately show ?thesis using out by blast
qed

text \<open>
  The bins of the code, by the labels that \<^verbatim>\<open>pd.cut\<close> assigns under the stage's own
  edges: when the balancing succeeds, for every label the output holds at most the
  per-bin target of rows with that label, all of them rows of that label in the input,
  none taken more often than it occurs there; a label whose input count is at or below
  the target keeps all its rows, and a label above the target is cut to exactly the
  target.
\<close>

lemma labelled_bins_capped:
  assumes vs: "valid_sampler choice"
      and edges: "eval_bin_edges eval_bin_size df = Inr bins"
      and ok: "balance_eval_bins choice eval_bin_size min_positions_per_eval_bin df = Inr out"
  shows "\<forall>b. int (length (bin_rows bins b out)) \<le> min_positions_per_eval_bin \<and>
             mset (bin_rows bins b out) \<subseteq># mset (bin_rows bins b df) \<and>
             (int (length (bin_rows bins b df)) \<le> min_positions_per_eval_bin
                \<longrightarrow> bin_rows bins b out = bin_rows bins b df) \<and>
             (min_positions_per_eval_bin < int (length (bin_rows bins b df))
                \<longrightarrow> int (length (bin_rows bins b out)) = min_positions_per_eval_bin)"
proof
  fix b
  let ?t = min_positions_per_eval_bin
  let ?counts = "value_counts (map (cut_label bins) (map evaluation df))"
  let ?R = "\<lambda>(bc :: nat \<times> nat) d. int (length d) \<le> ?t \<and>
       set d \<subseteq> set (bin_rows bins (fst bc) df) \<and>
       mset d \<subseteq># mset (bin_rows bins (fst bc) df) \<and>
       (int (length (bin_rows bins (fst bc) df)) \<le> ?t \<longrightarrow> d = bin_rows bins (fst bc) df) \<and>
       (?t < int (length (bin_rows bins (fst bc) df)) \<longrightarrow> int (length d) = ?t)"
  let ?key = "\<lambda>r. cut_label bins (evaluation r)"
  let ?p = "\<lambda>bc :: nat \<times> nat. Some (fst bc)"
  from balance_eval_bins_pieces[OF vs edges ok] obtain dfs where out: "out = concat dfs"
    and t: "0 \<le> ?t" and la: "list_all2 ?R ?counts dfs"
    by blast
  have keys: "\<forall>r \<in> set d. ?key r = ?p bc" if "?R bc d" for bc d
    using that by (auto simp: bin_rows_def)
  have dist: "distinct (map ?p ?counts)"
  proof -
    have "map ?p ?counts = map Some (map fst ?counts)" by simp
    then show ?thesis by (simp only: distinct_map_Some value_counts_distinct)
  qed
  show "int (length (bin_rows bins b out)) \<le> ?t \<and>
        mset (bin_rows bins b out) \<subseteq># mset (bin_rows bins b df) \<and>
        (int (length (bin_rows bins b df)) \<le> ?t \<longrightarrow> bin_rows bins b out = bin_rows bins b df) \<and>
        (?t < int (length (bin_rows bins b df)) \<longrightarrow> int (length (bin_rows bins b out)) = ?t)"
  proof (cases "Some b \<in> ?p ` set ?counts")
    case True
    from filter_concat_present[of ?R ?counts dfs ?p ?key, OF la dist keys True]
    obtain bc d where bc: "?p bc = Some b" "?R bc d"
      "filter (\<lambda>r. ?key r = Some b) (concat dfs) = d"
      by blast
    from bc(1) have b: "fst bc = b" by simp
    from bc(3) out have "bin_rows bins b out = d" by (simp add: bin_rows_def)
    with bc(2) b show ?thesis by simp
  next
    case False
    from filter_concat_absent[of ?R ?counts dfs ?key ?p, OF la keys False] out
    have o: "bin_rows bins b out = []" by (simp add: bin_rows_def)
    from False have "b \<notin> set (map fst ?counts)" by force
    then have "Some b \<notin> set (map (cut_label bins) (map evaluation df))"
      by (simp only: value_counts_labels) simp
    then have "bin_rows bins b df = []"
      by (force simp: bin_rows_def filter_empty_conv image_iff)
    with o t show ?thesis by simp
  qed
qed

subsection \<open>Rows that survive the stages\<close>

lemma list_all2_right_member:
  "list_all2 R xs ys \<Longrightarrow> y \<in> set ys \<Longrightarrow> \<exists>x \<in> set xs. R x y"
  by (induction rule: list_all2_induct) auto

lemma balance_primary_subset:
  assumes vs: "valid_sampler choice" and ok: "balance_primary choice df = Inr out"
  shows "set out \<subseteq> set df"
proof
  fix r assume "r \<in> set out"
  from balance_primary_pieces[OF vs ok] obtain dfs where out: "out = concat dfs"
    and la: "list_all2 (\<lambda>ng d. length d = Min ((\<lambda>nm. length (group_rows nm df)) ` group_name ` set df) \<and>
                             set d \<subseteq> set (snd ng) \<and> mset d \<subseteq># mset (snd ng) \<and>
                             (length (snd ng) = Min ((\<lambda>nm. length (group_rows nm df)) ` group_name ` set df)
                                \<longrightarrow> d = snd ng))
                     (groupby df) dfs"
    by blast
  from \<open>r \<in> set out\<close> out obtain d where d: "d \<in> set dfs" "r \<in> set d" by auto
  from list_all2_right_member[OF la d(1)] obtain ng where
    ng: "ng \<in> set (groupby df)" "set d \<subseteq> set (snd ng)" by blast
  from groupby_group[OF ng(1)] have "set (snd ng) \<subseteq> set df" by auto
  with ng(2) d(2) show "r \<in> set df" by blast
qed

lemma balance_eval_bins_edges:
  "balance_eval_bins choice w target df = Inr out \<Longrightarrow> \<exists>bins. eval_bin_edges w df = Inr bins"
  unfolding balance_eval_bins_def by (cases "eval_bin_edges w df") simp_all

lemma balance_eval_bins_labelled:
  assumes vs: "valid_sampler choice"
      and edges: "eval_bin_edges w df = Inr bins"
      and ok: "balance_eval_bins choice w target df = Inr out"
  shows "\<forall>r \<in> set out. r \<in> set df \<and> cut_label bins (evaluation r) \<noteq> None"
proof
  fix r assume r: "r \<in> set out"
  from balance_eval_bins_pieces[OF vs edges ok] obtain dfs where out: "out = concat dfs"
    and la: "list_all2 (\<lambda>bc d. int (length d) \<le> target \<and>
                             set d \<subseteq> set (bin_rows bins (fst bc) df) \<and>
       mset d \<subseteq># mset (bin_rows bins (fst bc) df) \<and>
                             (int (length (bin_rows bins (fst bc) df)) \<le> target
                                \<longrightarrow> d = bin_rows bins (fst bc) df) \<and>
                             (target < int (length (bin_rows bins (fst bc) df))
                                \<longrightarrow> int (length d) = target))
                     (value_counts (map (cut_label bins) (map evaluation df))) dfs"
    by (elim exE conjE)
  from la have la': "list_all2 (\<lambda>bc d. set d \<subseteq> set (bin_rows bins (fst bc) df))
                     (value_counts (map (cut_label bins) (map evaluation df))) dfs"
    by (rule list_all2_mono) (elim conjE)
  from r out obtain d where d: "d \<in> set dfs" "r \<in> set d" by auto
  from list_all2_right_member[OF la' d(1)] obtain bc :: "nat \<times> nat" where
    "set d \<subseteq> set (bin_rows bins (fst bc) df)" by blast
  with d(2) have "r \<in> set (bin_rows bins (fst bc) df)" by (rule subsetD[rotated])
  then show "r \<in> set df \<and> cut_label bins (evaluation r) \<noteq> None"
    by (simp add: bin_rows_def)
qed

lemma floor_multiple_le: "0 < (w::int) \<Longrightarrow> a div w * w \<le> a"
  by (simp add: minus_mod_eq_div_mult[symmetric])

lemma arange_edges:
  assumes w: "0 < (w::int)" and am: "a \<le> M"
      and ar: "np_arange (a div w * w) (M div w * w + w) w = Inr bins"
  shows "bins = map (\<lambda>i. a div w * w + int i * w) [0..<nat (M div w - a div w + 1)]"
proof -
  have "a div w * w - (M div w * w + w) = (a div w - M div w - 1) * w"
    by (simp add: algebra_simps)
  then have "(a div w * w - (M div w * w + w)) div w = a div w - M div w - 1"
    using w by simp
  then have "nat (- ((a div w * w - (M div w * w + w)) div w)) = nat (M div w - a div w + 1)"
    by simp
  with ar w show ?thesis by (simp add: np_arange_def)
qed

lemma maximum_unlabelled:
  assumes w: "0 < w" and edges: "eval_bin_edges w df = Inr bins"
  shows "cut_label bins (Max (set (map evaluation df))) = None"
proof -
  let ?a = "Min (set (map evaluation df))"
  let ?M = "Max (set (map evaluation df))"
  let ?n = "nat (?M div w - ?a div w + 1)"
  from edges have ne: "df \<noteq> []"
    and ar: "np_arange (?a div w * w) (?M div w * w + w) w = Inr bins"
    by (auto simp: eval_bin_edges_def Let_def split: if_splits)
  from ne have am: "?a \<le> ?M" by (simp add: Min_le_iff)
  from arange_edges[OF w am ar]
  have bins: "bins = map (\<lambda>i. ?a div w * w + int i * w) [0..<?n]" .
  from am w have dm: "?a div w \<le> ?M div w" by (rule zdiv_mono1)
  have all_le: "e \<le> ?M" if "e \<in> set bins" for e
  proof -
    from that bins obtain i where i: "i < ?n" "e = ?a div w * w + int i * w" by auto
    from i(1) dm have "int i \<le> ?M div w - ?a div w" by linarith
    with w have "int i * w \<le> (?M div w - ?a div w) * w" by (simp add: mult_right_mono)
    with i(2) have "e \<le> ?M div w * w" by (simp add: algebra_simps)
    also have "\<dots> \<le> ?M" using w by (rule floor_multiple_le)
    finally show ?thesis .
  qed
  then have ss: "searchsorted_right bins ?M = length bins"
    by (simp add: searchsorted_right_def)
  show ?thesis
  proof (cases "?M = hd bins")
    case False
    with ss show ?thesis by (simp add: cut_label_def)
  next
    case True
    from dm have "0 < ?n" by simp
    with bins have "hd bins = ?a div w * w" by (simp add: hd_map upt_conv_Cons)
    with True have "?M \<le> ?a" using floor_multiple_le[OF w, of ?a] by simp
    with am have "?M = ?a" by simp
    with bins have "length bins = 1" by simp
    with True show ?thesis by (simp add: cut_label_def)
  qed
qed

text \<open>
  C1 does not hold of the code. For every positive bin width, the last edge that
  \<^verbatim>\<open>np.arange\<close> produces is the floor multiple of the maximum evaluation, and
  \<^verbatim>\<open>pd.cut\<close> with \<^verbatim>\<open>right=False\<close> gives no label to a value at or above the last
  edge: the maximum observed evaluation falls in no bin, and no row carrying it is in
  the output of the stage.
\<close>

theorem maximum_evaluation_dropped:
  assumes w: "0 < eval_bin_size" and vs: "valid_sampler choice"
      and ok: "balance_eval_bins choice eval_bin_size min_positions_per_eval_bin df = Inr out"
  shows "\<exists>bins. eval_bin_edges eval_bin_size df = Inr bins \<and>
           cut_label bins (Max (set (map evaluation df))) = None \<and>
           (\<forall>r \<in> set out. evaluation r \<noteq> Max (set (map evaluation df)))"
proof -
  from balance_eval_bins_edges[OF ok] obtain bins
    where edges: "eval_bin_edges eval_bin_size df = Inr bins" by blast
  have mx: "cut_label bins (Max (set (map evaluation df))) = None"
    using w edges by (rule maximum_unlabelled)
  with balance_eval_bins_labelled[OF vs edges ok]
  have "\<forall>r \<in> set out. evaluation r \<noteq> Max (set (map evaluation df))" by auto
  with edges mx show ?thesis by blast
qed

theorem maximum_evaluation_dropped_witness:
  "(0::int) < 100 \<and> valid_sampler leading_positions \<and>
   balance_eval_bins leading_positions 100 1000 [example_row 1 10 50, example_row 1 10 150] =
     Inr [example_row 1 10 50] \<and>
   eval_bin_edges 100 [example_row 1 10 50, example_row 1 10 150] = Inr [0, 100] \<and>
   Max (set (map evaluation [example_row 1 10 50, example_row 1 10 150])) = 150 \<and>
   cut_label [0, 100] 150 = None \<and>
   example_row 1 10 150 \<notin> set [example_row 1 10 50]"
proof -
  let ?df = "[example_row 1 10 50, example_row 1 10 150]"
  have a: "(0::int) < 100" by simp
  have b: "valid_sampler leading_positions"
    by (simp add: valid_sampler_def leading_positions_def)
  have c: "balance_eval_bins leading_positions 100 1000 ?df = Inr [example_row 1 10 50]"
    by code_simp
  have d: "eval_bin_edges 100 ?df = Inr [0, 100]"
    "Max (set (map evaluation ?df)) = 150"
    "example_row 1 10 150 \<notin> set [example_row 1 10 50]"
    by code_simp+
  from maximum_evaluation_dropped[OF a b c] d have "cut_label [0, 100] 150 = None" by simp
  with a b c d show ?thesis by blast
qed

lemma multiple_le_iff:
  assumes w: "0 < (w::int)"
  shows "(i * w \<le> y) = (i \<le> y div w)"
proof
  assume "i * w \<le> y"
  then have "(i * w) div w \<le> y div w" using w by (rule zdiv_mono1)
  with w show "i \<le> y div w" by simp
next
  assume "i \<le> y div w"
  with w have "i * w \<le> y div w * w" by (simp add: mult_right_mono)
  also have "\<dots> \<le> y" using w by (rule floor_multiple_le)
  finally show "i * w \<le> y" .
qed

lemma count_below: "length (filter (\<lambda>i. int i \<le> q) [0..<n]) = min n (nat (q + 1))"
  by (induction n) auto

lemma edges_at_or_below:
  assumes w: "0 < (w::int)"
  shows "searchsorted_right (map (\<lambda>i. s + int i * w) [0..<n]) x = min n (nat ((x - s) div w + 1))"
proof -
  have "(s + int i * w \<le> x) = (int i \<le> (x - s) div w)" for i
    using multiple_le_iff[OF w, of "int i" "x - s"] by (simp add: algebra_simps)
  then have "searchsorted_right (map (\<lambda>i. s + int i * w) [0..<n]) x =
      length (filter (\<lambda>i. int i \<le> (x - s) div w) [0..<n])"
    by (simp add: searchsorted_right_def length_filter_map comp_def)
  then show ?thesis by (simp only: count_below)
qed

text \<open>A value from the first edge up to below the last edge gets the number of its bucket.\<close>

lemma cut_label_inner:
  assumes w: "0 < (w::int)" and n: "0 < n"
      and lo: "s \<le> x" and hi: "x < s + (int n - 1) * w"
  shows "cut_label (map (\<lambda>i. s + int i * w) [0..<n]) x = Some (nat ((x - s) div w))"
proof -
  let ?bins = "map (\<lambda>i. s + int i * w) [0..<n]"
  let ?q = "(x - s) div w"
  from lo w have q0: "0 \<le> ?q" by (simp add: pos_imp_zdiv_nonneg_iff)
  have "\<not> (int n - 1) * w \<le> x - s" using hi by simp
  then have "\<not> int n - 1 \<le> ?q" unfolding multiple_le_iff[OF w] .
  then have q1: "?q + 1 < int n" by simp
  from q0 q1 have ss: "searchsorted_right ?bins x = nat (?q + 1)"
    by (simp add: edges_at_or_below[OF w] min_def)
  from n have hd: "hd ?bins = s" by (simp add: hd_map upt_conv_Cons)
  have len: "length ?bins = n" by simp
  have first: "nat (?q + 1) = 1" if "x = s" using that by simp
  from q0 q1 have ne: "nat (?q + 1) \<noteq> n" "nat (?q + 1) \<noteq> 0" "nat (?q + 1) - 1 = nat ?q"
    by linarith+
  show ?thesis
    unfolding cut_label_def Let_def ss hd len
    using first ne by (cases "x = s") simp_all
qed

text \<open>A value at or above the floor multiple of the maximum gets no label.\<close>

lemma top_bucket_unlabelled:
  assumes w: "0 < w" and edges: "eval_bin_edges w df = Inr bins"
      and x: "Max (set (map evaluation df)) div w * w \<le> x"
  shows "cut_label bins x = None"
proof -
  let ?a = "Min (set (map evaluation df))"
  let ?M = "Max (set (map evaluation df))"
  let ?n = "nat (?M div w - ?a div w + 1)"
  from edges have ne: "df \<noteq> []"
    and ar: "np_arange (?a div w * w) (?M div w * w + w) w = Inr bins"
    by (auto simp: eval_bin_edges_def Let_def split: if_splits)
  from ne have am: "?a \<le> ?M" by (simp add: Min_le_iff)
  from arange_edges[OF w am ar]
  have bins: "bins = map (\<lambda>i. ?a div w * w + int i * w) [0..<?n]" .
  from am w have dm: "?a div w \<le> ?M div w" by (rule zdiv_mono1)
  have all_le: "e \<le> x" if "e \<in> set bins" for e
  proof -
    from that bins obtain i where i: "i < ?n" "e = ?a div w * w + int i * w" by auto
    from i(1) dm have "int i \<le> ?M div w - ?a div w" by linarith
    with w have "int i * w \<le> (?M div w - ?a div w) * w" by (simp add: mult_right_mono)
    with i(2) have "e \<le> ?M div w * w" by (simp add: algebra_simps)
    also note x
    finally show ?thesis .
  qed
  then have ss: "searchsorted_right bins x = length bins"
    by (simp add: searchsorted_right_def)
  show ?thesis
  proof (cases "x = hd bins")
    case False
    with ss show ?thesis by (simp add: cut_label_def)
  next
    case True
    from dm have "0 < ?n" by simp
    with bins have "hd bins = ?a div w * w" by (simp add: hd_map upt_conv_Cons)
    with True x have "?M div w * w \<le> ?a div w * w" by simp
    with w have "?M div w \<le> ?a div w" by (simp add: mult_le_cancel_right)
    with dm have "?M div w = ?a div w" by simp
    with bins have "length bins = 1" by simp
    with True show ?thesis by (simp add: cut_label_def)
  qed
qed

text \<open>The label of a row of the input: none in the top bucket, the bucket number from the lowest bucket below it.\<close>

lemma cut_label_bucket:
  assumes w: "0 < w" and edges: "eval_bin_edges w df = Inr bins" and r: "r \<in> set df"
  shows "Min (set (map evaluation df)) div w \<le> evaluation r div w \<and>
         evaluation r div w \<le> Max (set (map evaluation df)) div w \<and>
         cut_label bins (evaluation r) =
           (if evaluation r div w = Max (set (map evaluation df)) div w then None
            else Some (nat (evaluation r div w - Min (set (map evaluation df)) div w)))"
proof -
  let ?a = "Min (set (map evaluation df))"
  let ?M = "Max (set (map evaluation df))"
  let ?n = "nat (?M div w - ?a div w + 1)"
  let ?e = "evaluation r"
  from edges have ne: "df \<noteq> []"
    and ar: "np_arange (?a div w * w) (?M div w * w + w) w = Inr bins"
    by (auto simp: eval_bin_edges_def Let_def split: if_splits)
  from r have ae: "?a \<le> ?e" and eM: "?e \<le> ?M" by simp_all
  then have am: "?a \<le> ?M" by simp
  from arange_edges[OF w am ar]
  have bins: "bins = map (\<lambda>i. ?a div w * w + int i * w) [0..<?n]" .
  from ae w have k1: "?a div w \<le> ?e div w" by (rule zdiv_mono1)
  from eM w have k2: "?e div w \<le> ?M div w" by (rule zdiv_mono1)
  have lab: "cut_label bins ?e =
      (if ?e div w = ?M div w then None else Some (nat (?e div w - ?a div w)))"
  proof (cases "?e div w = ?M div w")
    case True
    have "?e div w * w \<le> ?e" using w by (rule floor_multiple_le)
    with True have "?M div w * w \<le> ?e" by simp
    from top_bucket_unlabelled[OF w edges this] True show ?thesis by simp
  next
    case False
    with k2 have lt: "?e div w + 1 \<le> ?M div w" by simp
    have n: "0 < ?n" using k1 k2 by simp
    have lo: "?a div w * w \<le> ?e"
      using floor_multiple_le[OF w, of ?a] ae by simp
    have "\<not> (?e div w + 1) * w \<le> ?e" by (simp add: multiple_le_iff[OF w])
    moreover from lt w have "(?e div w + 1) * w \<le> ?M div w * w" by (simp only: mult_right_mono)
    ultimately have "?e < ?M div w * w" by simp
    moreover have "?a div w * w + (int ?n - 1) * w = ?M div w * w"
      using k1 k2 by (simp add: algebra_simps)
    ultimately have hi: "?e < ?a div w * w + (int ?n - 1) * w" by simp
    have "(?e - ?a div w * w) div w = ?e div w - ?a div w"
      using w div_mult_self1[of w ?e "- (?a div w)"] by (simp add: algebra_simps)
    with cut_label_inner[OF w n lo hi] False bins show ?thesis by simp
  qed
  with k1 k2 show ?thesis by blast
qed


text \<open>
  C5 does not hold of the code, by the defect of C1. With the bins of the
  specification (the bucket of an evaluation is its floor division by the bin width),
  whenever the stage succeeds with a positive bin width, the top bucket, which holds
  the maximum observed evaluation and so has rows in the input, has no row in the
  output, whatever the per-bin target: a top bucket whose input count is at or below
  the target does not keep its rows. Every other bucket is as the claim says: at most
  the target of rows in the output, all of them rows of that bucket in the input, none
  taken more often than it occurs there; unchanged if its input count is at or below
  the target; cut to exactly the target otherwise.
\<close>

theorem top_bucket_emptied:
  assumes w: "0 < eval_bin_size" and vs: "valid_sampler choice"
      and ok: "balance_eval_bins choice eval_bin_size min_positions_per_eval_bin df = Inr out"
  shows "spec_bucket_rows eval_bin_size (Max (set (map evaluation df)) div eval_bin_size) df \<noteq> [] \<and>
         spec_bucket_rows eval_bin_size (Max (set (map evaluation df)) div eval_bin_size) out = [] \<and>
         (\<forall>k. k \<noteq> Max (set (map evaluation df)) div eval_bin_size \<longrightarrow>
            int (length (spec_bucket_rows eval_bin_size k out)) \<le> min_positions_per_eval_bin \<and>
            mset (spec_bucket_rows eval_bin_size k out) \<subseteq># mset (spec_bucket_rows eval_bin_size k df) \<and>
            (int (length (spec_bucket_rows eval_bin_size k df)) \<le> min_positions_per_eval_bin
               \<longrightarrow> spec_bucket_rows eval_bin_size k out = spec_bucket_rows eval_bin_size k df) \<and>
            (min_positions_per_eval_bin < int (length (spec_bucket_rows eval_bin_size k df))
               \<longrightarrow> int (length (spec_bucket_rows eval_bin_size k out)) = min_positions_per_eval_bin))"
proof -
  let ?w = eval_bin_size
  let ?t = min_positions_per_eval_bin
  let ?kA = "Min (set (map evaluation df)) div ?w"
  let ?kM = "Max (set (map evaluation df)) div ?w"
  from balance_eval_bins_edges[OF ok] obtain bins
    where edges: "eval_bin_edges ?w df = Inr bins" by blast
  from edges have ne: "df \<noteq> []" by (auto simp: eval_bin_edges_def split: if_splits)
  note label = cut_label_bucket[OF w edges]
  note kept = balance_eval_bins_labelled[OF vs edges ok]
  note capped = labelled_bins_capped[OF vs edges ok]
  from capped have t0: "0 \<le> ?t" by (meson of_nat_0_le_iff order_trans)
  from ne have "Max (set (map evaluation df)) \<in> set (map evaluation df)"
    by (intro Max_in) simp_all
  then obtain r0 where "r0 \<in> set df" "evaluation r0 div ?w = ?kM" by auto
  then have top_in: "spec_bucket_rows ?w ?kM df \<noteq> []"
    by (auto simp: spec_bucket_rows_def filter_empty_conv)
  have "evaluation r div ?w \<noteq> ?kM" if "r \<in> set out" for r
  proof -
    from kept that have "r \<in> set df" "cut_label bins (evaluation r) \<noteq> None" by blast+
    with label[of r] show ?thesis by auto
  qed
  then have top_out: "spec_bucket_rows ?w ?kM out = []"
    by (auto simp: spec_bucket_rows_def filter_empty_conv)
  have others: "int (length (spec_bucket_rows ?w k out)) \<le> ?t \<and>
        mset (spec_bucket_rows ?w k out) \<subseteq># mset (spec_bucket_rows ?w k df) \<and>
        (int (length (spec_bucket_rows ?w k df)) \<le> ?t
           \<longrightarrow> spec_bucket_rows ?w k out = spec_bucket_rows ?w k df) \<and>
        (?t < int (length (spec_bucket_rows ?w k df))
           \<longrightarrow> int (length (spec_bucket_rows ?w k out)) = ?t)"
    if k: "k \<noteq> ?kM" for k
  proof (cases "?kA \<le> k \<and> k < ?kM")
    case True
    have same: "(cut_label bins (evaluation r) = Some (nat (k - ?kA))) = (evaluation r div ?w = k)"
      if "r \<in> set df" for r
      using label[OF that] True by auto
    have in_df: "bin_rows bins (nat (k - ?kA)) df = spec_bucket_rows ?w k df"
      unfolding bin_rows_def spec_bucket_rows_def
      by (rule filter_cong[OF refl]) (rule same)
    have in_out: "bin_rows bins (nat (k - ?kA)) out = spec_bucket_rows ?w k out"
      unfolding bin_rows_def spec_bucket_rows_def
    proof (rule filter_cong[OF refl])
      fix r assume "r \<in> set out"
      with kept have "r \<in> set df" by blast
      then show "(cut_label bins (evaluation r) = Some (nat (k - ?kA))) = (evaluation r div ?w = k)"
        by (rule same)
    qed
    from capped have "int (length (bin_rows bins (nat (k - ?kA)) out)) \<le> ?t \<and>
        mset (bin_rows bins (nat (k - ?kA)) out) \<subseteq># mset (bin_rows bins (nat (k - ?kA)) df) \<and>
        (int (length (bin_rows bins (nat (k - ?kA)) df)) \<le> ?t
           \<longrightarrow> bin_rows bins (nat (k - ?kA)) out = bin_rows bins (nat (k - ?kA)) df) \<and>
        (?t < int (length (bin_rows bins (nat (k - ?kA)) df))
           \<longrightarrow> int (length (bin_rows bins (nat (k - ?kA)) out)) = ?t)"
      by (rule spec)
    then show ?thesis unfolding in_df in_out .
  next
    case False
    with k have out_of_range: "k < ?kA \<or> ?kM < k" by linarith
    have "evaluation r div ?w \<noteq> k" if "r \<in> set df" for r
      using label[OF that] out_of_range by linarith
    then have e1: "spec_bucket_rows ?w k df = []"
      by (auto simp: spec_bucket_rows_def filter_empty_conv)
    have "evaluation r div ?w \<noteq> k" if "r \<in> set out" for r
    proof -
      from kept that have "r \<in> set df" by blast
      from label[OF this] out_of_range show ?thesis by linarith
    qed
    then have e2: "spec_bucket_rows ?w k out = []"
      by (auto simp: spec_bucket_rows_def filter_empty_conv)
    from t0 show ?thesis unfolding e1 e2 by simp
  qed
  from top_in top_out others show ?thesis by blast
qed

theorem top_bucket_emptied_witness:
  "(0::int) < 100 \<and> valid_sampler leading_positions \<and>
   balance_primary leading_positions balanced_table = Inr balanced_table \<and>
   balance_eval_bins leading_positions 100 1 balanced_table =
     Inr [example_row 0 10 (- 250), example_row 1 10 50, example_row 0 10 (- 30)] \<and>
   Max (set (map evaluation balanced_table)) div 100 = 1 \<and>
   spec_bucket_rows 100 1 balanced_table = [example_row 1 10 150] \<and>
   int (length (spec_bucket_rows 100 1 balanced_table)) \<le> 1 \<and>
   spec_bucket_rows 100 1
     [example_row 0 10 (- 250), example_row 1 10 50, example_row 0 10 (- 30)] = [] \<and>
   int (length (spec_bucket_rows 100 (- 1) balanced_table)) \<le> 1 \<and>
   spec_bucket_rows 100 (- 1)
     [example_row 0 10 (- 250), example_row 1 10 50, example_row 0 10 (- 30)] =
   spec_bucket_rows 100 (- 1) balanced_table \<and>
   1 < int (length (spec_bucket_rows 100 0 balanced_table)) \<and>
   int (length (spec_bucket_rows 100 0
     [example_row 0 10 (- 250), example_row 1 10 50, example_row 0 10 (- 30)])) = 1 \<and>
   balance_eval_bins leading_positions 100 1000 [example_row 1 10 50, example_row 1 10 150] =
     Inr [example_row 1 10 50] \<and>
   Max (set (map evaluation [example_row 1 10 50, example_row 1 10 150])) div 100 = 1 \<and>
   spec_bucket_rows 100 1 [example_row 1 10 50, example_row 1 10 150] = [example_row 1 10 150] \<and>
   spec_bucket_rows 100 1 [example_row 1 10 50] = []"
proof -
  let ?out = "[example_row 0 10 (- 250), example_row 1 10 50, example_row 0 10 (- 30)]"
  let ?df2 = "[example_row 1 10 50, example_row 1 10 150]"
  have a: "(0::int) < 100" by simp
  have b: "valid_sampler leading_positions"
    by (simp add: valid_sampler_def leading_positions_def)
  have p: "balance_primary leading_positions balanced_table = Inr balanced_table"
    by code_simp
  have c: "balance_eval_bins leading_positions 100 1 balanced_table = Inr ?out"
    by code_simp
  have c2: "balance_eval_bins leading_positions 100 1000 ?df2 = Inr [example_row 1 10 50]"
    by code_simp
  have d: "Max (set (map evaluation balanced_table)) div 100 = 1"
    "spec_bucket_rows 100 1 balanced_table = [example_row 1 10 150]"
    "int (length (spec_bucket_rows 100 (- 1) balanced_table)) \<le> 1"
    "1 < int (length (spec_bucket_rows 100 0 balanced_table))"
    "Max (set (map evaluation ?df2)) div 100 = 1"
    "spec_bucket_rows 100 1 ?df2 = [example_row 1 10 150]"
    by code_simp+
  note t = top_bucket_emptied[OF a b c, unfolded d(1)]
  from t have e1: "spec_bucket_rows 100 1 ?out = []" by blast
  from t have "\<forall>k. k \<noteq> 1 \<longrightarrow>
            (int (length (spec_bucket_rows 100 k balanced_table)) \<le> 1
               \<longrightarrow> spec_bucket_rows 100 k ?out = spec_bucket_rows 100 k balanced_table) \<and>
            (1 < int (length (spec_bucket_rows 100 k balanced_table))
               \<longrightarrow> int (length (spec_bucket_rows 100 k ?out)) = 1)"
    by blast
  then have e2: "spec_bucket_rows 100 (- 1) ?out = spec_bucket_rows 100 (- 1) balanced_table"
    and e3: "int (length (spec_bucket_rows 100 0 ?out)) = 1"
    using d(3,4) by simp_all
  from top_bucket_emptied[OF a b c2, unfolded d(5)]
  have e4: "spec_bucket_rows 100 1 [example_row 1 10 50] = []" by blast
  have e5: "int (length (spec_bucket_rows 100 1 balanced_table)) \<le> 1"
    unfolding d(2) by simp
  from a b p c c2 d e1 e2 e3 e4 e5 show ?thesis by blast
qed

subsection \<open>The empty-group check and the seed\<close>

lemma collect_map_Inl:
  "collect (map g ks) = Inl e \<Longrightarrow> \<exists>k \<in> set ks. g k = Inl e"
  by (induction ks) (auto split: sum.splits)

lemma sample_error: "sample choice df n seed = Inl e \<Longrightarrow> e = ValueError"
  by (simp add: sample_def split: if_splits)

lemma pd_concat_error: "pd_concat dfs = Inl e \<Longrightarrow> e = ValueError"
  by (simp add: pd_concat_def split: if_splits)

lemma min_primary_group_count_nonzero: "min_primary_group_count (groupby df) \<noteq> 0"
proof -
  from min_count_attained[of \<infinity> "groupby df"]
  consider "min_primary_group_count (groupby df) = \<infinity>"
    | x where "x \<in> set (groupby df)" "min_primary_group_count (groupby df) = enat (length (snd x))"
    by (auto simp: min_primary_group_count_def)
  then show ?thesis
  proof cases
    case 1
    then show ?thesis by simp
  next
    case 2
    from groupby_group[OF 2(1)] have "snd x \<noteq> []" by (rule conjunct2)
    then have "length (snd x) \<noteq> 0" by simp
    with 2(2) show ?thesis by (simp add: zero_enat_def)
  qed
qed

lemma balance_primary_never_EmptyCategory: "balance_primary choice df \<noteq> Inl EmptyCategory"
proof
  assume a: "balance_primary choice df = Inl EmptyCategory"
  let ?m = "min_primary_group_count (groupby df)"
  define g where "g = (\<lambda>ng :: (int \<times> win_loss) \<times> feature_record list.
      if enat (length (snd ng)) > ?m then sample choice (snd ng) (int (the_enat ?m)) 42
      else Inr (snd ng))"
  have eq: "balance_primary choice df =
      (case collect (map g (groupby df)) of Inl e \<Rightarrow> Inl e | Inr dfs \<Rightarrow> pd_concat dfs)"
    using min_primary_group_count_nonzero[of df]
    by (simp add: balance_primary_def Let_def g_def)
  show False
  proof (cases "collect (map g (groupby df))")
    case (Inl e)
    with a eq have "e = EmptyCategory" by simp
    with Inl obtain ng where "g ng = Inl EmptyCategory" by (blast dest: collect_map_Inl)
    then have "sample choice (snd ng) (int (the_enat ?m)) 42 = Inl EmptyCategory"
      by (simp add: g_def split: if_splits)
    then show False by (auto dest: sample_error)
  next
    case (Inr dfs)
    with a eq have "pd_concat dfs = Inl EmptyCategory" by simp
    then show False by (auto dest: pd_concat_error)
  qed
qed

text \<open>
  C2 does not hold of the code. \<^verbatim>\<open>groupby\<close> yields only the pairs that occur, so
  the smallest group count is never 0 and the check that prints "One or more primary
  groups are empty" never fires: on a table where four of the six (side-to-move,
  outcome) groups are empty, the balancing proceeds with the two groups that occur, and
  no input at all makes \<open>balance_primary\<close> stop with \<open>EmptyCategory\<close>.
\<close>

theorem empty_group_not_reported:
  "group_rows (1, neutral) [example_row 1 10 (- 150), example_row 1 10 50] = [] \<and>
   group_rows (0, white_winning) [example_row 1 10 (- 150), example_row 1 10 50] = [] \<and>
   balance_primary choice [example_row 1 10 (- 150), example_row 1 10 50] =
     Inr [example_row 1 10 (- 150), example_row 1 10 50] \<and>
   filter_balance_data_no_normalize choice [example_row 1 10 (- 150), example_row 1 10 50]
     5 35 100 1000 = Inr [example_row 1 10 (- 150)] \<and>
   balance_primary choice df \<noteq> Inl EmptyCategory"
proof -
  have a: "group_rows (1, neutral) [example_row 1 10 (- 150), example_row 1 10 50] = []"
    "group_rows (0, white_winning) [example_row 1 10 (- 150), example_row 1 10 50] = []"
    by code_simp+
  have b: "balance_primary choice [example_row 1 10 (- 150), example_row 1 10 50] =
     Inr [example_row 1 10 (- 150), example_row 1 10 50]"
    by code_simp
  have c: "filter_balance_data_no_normalize choice [example_row 1 10 (- 150), example_row 1 10 50]
     5 35 100 1000 = Inr [example_row 1 10 (- 150)]"
    by code_simp
  from a b c balance_primary_never_EmptyCategory[of choice df] show ?thesis by blast
qed

lemma balance_primary_same_seed:
  assumes "choice1 42 = choice2 42"
  shows "balance_primary choice1 df = balance_primary choice2 df"
  unfolding balance_primary_def sample_def by (simp only: assms)

lemma balance_eval_bins_same_seed:
  assumes "choice1 42 = choice2 42"
  shows "balance_eval_bins choice1 w t df = balance_eval_bins choice2 w t df"
  unfolding balance_eval_bins_def sample_def by (simp only: assms)

text \<open>
  C9: every sampling call of both scripts passes the seed 42, so the written table
  depends on the random generator only through what it draws under that seed: two
  generators that agree under seed 42 give the same output on the same input and
  configuration, whatever they draw under other seeds.
\<close>

theorem same_seed_same_rows:
  assumes "choice1 42 = choice2 42"
  shows "filter_balance_data_no_normalize choice1 df min_move max_move eval_bin_size
           min_positions_per_eval_bin =
         filter_balance_data_no_normalize choice2 df min_move max_move eval_bin_size
           min_positions_per_eval_bin \<and>
         filter_balance_normalize_data choice1 df min_move max_move eval_bin_size
           min_positions_per_eval_bin eval_capping_threshold =
         filter_balance_normalize_data choice2 df min_move max_move eval_bin_size
           min_positions_per_eval_bin eval_capping_threshold"
proof -
  have p: "balance_primary choice1 = balance_primary choice2"
    using assms by (intro ext) (rule balance_primary_same_seed)
  have b: "balance_eval_bins choice1 = balance_eval_bins choice2"
    using assms by (intro ext) (rule balance_eval_bins_same_seed)
  show ?thesis
    unfolding filter_balance_data_no_normalize_def filter_balance_normalize_data_def p b
    by simp
qed

theorem same_seed_same_rows_witness:
  "leading_positions 42 = other_sampler 42 \<and>
   leading_positions 7 3 2 = [0, 1] \<and> other_sampler 7 3 2 = [2, 1] \<and>
   filter_balance_data_no_normalize leading_positions example_table 5 35 100 1 =
     Inr [example_row 1 10 (- 30), example_row 1 10 (- 250), example_row 1 10 50] \<and>
   filter_balance_data_no_normalize other_sampler example_table 5 35 100 1 =
     Inr [example_row 1 10 (- 30), example_row 1 10 (- 250), example_row 1 10 50]"
proof -
  have a: "leading_positions 42 = other_sampler 42"
    by (rule ext)+ (simp add: leading_positions_def other_sampler_def)
  have b: "leading_positions 7 3 2 = [0, 1]" "other_sampler 7 3 2 = [2, 1]"
    by code_simp+
  have c: "filter_balance_data_no_normalize leading_positions example_table 5 35 100 1 =
     Inr [example_row 1 10 (- 30), example_row 1 10 (- 250), example_row 1 10 50]"
    by code_simp
  from same_seed_same_rows[of leading_positions other_sampler example_table 5 35 100 1, OF a]
       a b c
  show ?thesis by simp
qed

subsection \<open>Normalization and the rows of the written tables\<close>

lemma truncate_extend: "feature_record.truncate (feature_record.extend r x) = r"
  by (cases r) (simp add: feature_record.truncate_def feature_record.extend_def)

lemma evaluation_extend: "evaluation (feature_record.extend r x) = evaluation r"
  by (cases r) (simp add: feature_record.extend_def)

lemma evaluation_normalized_extend:
  "evaluation_normalized (feature_record.extend r (normalized_record.fields v)) = v"
  by (cases r) (simp add: feature_record.extend_def normalized_record.fields_def)

lemma normalize_evaluation_rows:
  assumes "df \<noteq> []"
  shows "normalize_evaluation df =
     Inr (map (\<lambda>r. feature_record.extend r (normalized_record.fields
            (rat_of_int (evaluation r)
              * (2 / handle_zeros_in_scale
                       (Max (set (map (\<lambda>r. rat_of_int (evaluation r)) df))
                        - Min (set (map (\<lambda>r. rat_of_int (evaluation r)) df))))
             + (- 1 - Min (set (map (\<lambda>r. rat_of_int (evaluation r)) df))
                  * (2 / handle_zeros_in_scale
                       (Max (set (map (\<lambda>r. rat_of_int (evaluation r)) df))
                        - Min (set (map (\<lambda>r. rat_of_int (evaluation r)) df)))))))) df)"
  using assms
  by (simp add: normalize_evaluation_def MinMaxScaler_fit_transform_def Let_def
        zip_map2 zip_same_conv_map comp_def)


lemma rat_column_Min:
  "df \<noteq> [] \<Longrightarrow> Min (set (map (\<lambda>r. rat_of_int (evaluation r)) df)) =
      rat_of_int (Min (set (map evaluation df)))"
proof -
  assume ne: "df \<noteq> []"
  have "mono (rat_of_int)" by (simp add: mono_def)
  then have "rat_of_int (Min (set (map evaluation df))) = Min (rat_of_int ` set (map evaluation df))"
    using ne by (intro mono_Min_commute) simp_all
  then show ?thesis by (simp add: image_image)
qed

lemma rat_column_Max:
  "df \<noteq> [] \<Longrightarrow> Max (set (map (\<lambda>r. rat_of_int (evaluation r)) df)) =
      rat_of_int (Max (set (map evaluation df)))"
proof -
  assume ne: "df \<noteq> []"
  have "mono (rat_of_int)" by (simp add: mono_def)
  then have "rat_of_int (Max (set (map evaluation df))) = Max (rat_of_int ` set (map evaluation df))"
    using ne by (intro mono_Max_commute) simp_all
  then show ?thesis by (simp add: image_image)
qed

text \<open>
  C3, amended: normalization has no degenerate-range failure. On a non-empty final table
  whose smallest evaluation equals its largest, the scaler replaces the zero range by 1,
  the stage succeeds, and every row gets the normalized value -1 next to its unchanged
  columns.
\<close>

theorem constant_column_normalized:
  assumes ne: "df \<noteq> []"
      and deg: "Min (set (map evaluation df)) = Max (set (map evaluation df))"
  shows "normalize_evaluation df =
           Inr (map (\<lambda>r. feature_record.extend r (normalized_record.fields (- 1))) df)"
proof -
  let ?a = "Min (set (map evaluation df))"
  have const: "evaluation r = ?a" if "r \<in> set df" for r
  proof -
    from that have "?a \<le> evaluation r" "evaluation r \<le> Max (set (map evaluation df))"
      by simp_all
    with deg show ?thesis by simp
  qed
  have pt: "rat_of_int (evaluation r) * (2 / handle_zeros_in_scale (rat_of_int ?a - rat_of_int ?a))
          + (- 1 - rat_of_int ?a * (2 / handle_zeros_in_scale (rat_of_int ?a - rat_of_int ?a)))
        = - 1" if "r \<in> set df" for r
    using const[OF that] by (simp add: handle_zeros_in_scale_def)
  have "map (\<lambda>r. feature_record.extend r (normalized_record.fields
          (rat_of_int (evaluation r) * (2 / handle_zeros_in_scale (rat_of_int ?a - rat_of_int ?a))
          + (- 1 - rat_of_int ?a * (2 / handle_zeros_in_scale (rat_of_int ?a - rat_of_int ?a)))))) df
      = map (\<lambda>r. feature_record.extend r (normalized_record.fields (- 1))) df"
    by (rule map_cong[OF refl]) (simp only: pt)
  then show ?thesis
    unfolding normalize_evaluation_rows[OF ne] rat_column_Min[OF ne] rat_column_Max[OF ne]
      deg[symmetric]
    by (simp only:)
qed

lemma affine_mono: "0 \<le> (c::rat) \<Longrightarrow> mono (\<lambda>x. x * c + d)"
  by (simp add: mono_def mult_right_mono)

lemma affine_at_max:
  assumes "(lo::rat) < hi"
  shows "hi * (2 / (hi - lo)) + (- 1 - lo * (2 / (hi - lo))) = 1"
proof -
  define d where "d = hi - lo"
  define c where "c = 2 / d"
  from assms have "d \<noteq> 0" by (simp add: d_def)
  then have "d * c = 2" by (simp add: c_def)
  then have "hi * c - lo * c = 2" by (simp add: d_def algebra_simps)
  then have "hi * c + (- 1 - lo * c) = 1" by simp
  then show ?thesis by (simp only: c_def d_def)
qed

lemma affine_at_min: "lo * (c::rat) + (- 1 - lo * c) = - 1"
  by simp

text \<open>
  C6: on a non-empty final table whose smallest and largest evaluations differ,
  normalization succeeds, the smallest value of the appended column is -1 and the
  largest is 1 (in exact arithmetic), the evaluation column is unchanged, and dropping
  the appended column gives back the input rows.
\<close>

theorem normalization_range:
  assumes ne: "df \<noteq> []"
      and nondeg: "Min (set (map evaluation df)) \<noteq> Max (set (map evaluation df))"
  shows "\<exists>out. normalize_evaluation df = Inr out \<and>
           Min (set (map evaluation_normalized out)) = - 1 \<and>
           Max (set (map evaluation_normalized out)) = 1 \<and>
           map evaluation out = map evaluation df \<and>
           map feature_record.truncate out = df"
proof -
  let ?a = "Min (set (map evaluation df))"
  let ?M = "Max (set (map evaluation df))"
  let ?lo = "rat_of_int ?a"
  let ?hi = "rat_of_int ?M"
  let ?scale = "2 / (?hi - ?lo)"
  let ?f = "\<lambda>x :: rat. x * ?scale + (- 1 - ?lo * ?scale)"
  let ?out = "map (\<lambda>r. feature_record.extend r
                 (normalized_record.fields (?f (rat_of_int (evaluation r))))) df"
  from ne have "?a \<le> ?M" by (simp add: Min_le_iff)
  with nondeg have lt: "?lo < ?hi" by simp
  then have hz: "handle_zeros_in_scale (?hi - ?lo) = ?hi - ?lo"
    by (simp add: handle_zeros_in_scale_def)
  have run: "normalize_evaluation df = Inr ?out"
    unfolding normalize_evaluation_rows[OF ne] rat_column_Min[OF ne] rat_column_Max[OF ne] hz
    by (rule refl)
  have pos: "0 < ?scale" using lt by simp
  then have "0 \<le> ?scale" by (rule less_imp_le)
  then have mono: "mono ?f" by (rule affine_mono)
  let ?X = "set (map (\<lambda>r. rat_of_int (evaluation r)) df)"
  have X: "finite ?X" "?X \<noteq> {}" using ne by simp_all
  have col: "set (map evaluation_normalized ?out) = ?f ` ?X"
    by (simp add: evaluation_normalized_extend image_image comp_def)
  have "Min (?f ` ?X) = ?f (Min ?X)" using mono X by (rule mono_Min_commute[symmetric])
  also have "\<dots> = ?f ?lo" by (simp only: rat_column_Min[OF ne])
  also have "\<dots> = - 1" by (rule affine_at_min)
  finally have mn: "Min (set (map evaluation_normalized ?out)) = - 1" by (simp only: col)
  have "Max (?f ` ?X) = ?f (Max ?X)" using mono X by (rule mono_Max_commute[symmetric])
  also have "\<dots> = ?f ?hi" by (simp only: rat_column_Max[OF ne])
  also have "\<dots> = 1" using lt by (rule affine_at_max)
  finally have mx: "Max (set (map evaluation_normalized ?out)) = 1" by (simp only: col)
  have ev: "map evaluation ?out = map evaluation df"
    by (simp add: evaluation_extend comp_def)
  have tr: "map feature_record.truncate ?out = df"
    by (simp add: truncate_extend comp_def)
  from run mn mx ev tr show ?thesis by blast
qed


text \<open>
  C3, as the claim states it, fails: the run below reaches normalization with the
  single evaluation 50 (minimum equal to maximum) and writes a table, with the
  normalized value -1, instead of stopping.
\<close>

theorem degenerate_column_is_normalized:
  "Min (set (map evaluation [example_row 1 10 50])) =
     Max (set (map evaluation [example_row 1 10 50])) \<and>
   normalize_evaluation [example_row 1 10 50] =
     Inr [feature_record.extend (example_row 1 10 50) (normalized_record.fields (- 1))] \<and>
   filter_balance_normalize_data leading_positions
       [example_row 1 10 50, example_row 1 10 150] 5 35 100 1000 2500 =
     Inr [feature_record.extend (example_row 1 10 50) (normalized_record.fields (- 1))]"
proof -
  have a: "Min (set (map evaluation [example_row 1 10 50])) =
     Max (set (map evaluation [example_row 1 10 50]))"
    by simp
  have b: "normalize_evaluation [example_row 1 10 50] =
     Inr [feature_record.extend (example_row 1 10 50) (normalized_record.fields (- 1))]"
    by code_simp
  have c: "filter_balance_normalize_data leading_positions
       [example_row 1 10 50, example_row 1 10 150] 5 35 100 1000 2500 =
     Inr [feature_record.extend (example_row 1 10 50) (normalized_record.fields (- 1))]"
    by code_simp
  from a b c show ?thesis by blast
qed

theorem constant_column_normalized_witness:
  "[example_row 1 10 50, example_row 0 12 50] \<noteq> [] \<and>
   Min (set (map evaluation [example_row 1 10 50, example_row 0 12 50])) =
     Max (set (map evaluation [example_row 1 10 50, example_row 0 12 50])) \<and>
   normalize_evaluation [example_row 1 10 50, example_row 0 12 50] =
     Inr [feature_record.extend (example_row 1 10 50) (normalized_record.fields (- 1)),
          feature_record.extend (example_row 0 12 50) (normalized_record.fields (- 1))]"
proof -
  have a: "[example_row 1 10 50, example_row 0 12 50] \<noteq> []" by simp
  have b: "Min (set (map evaluation [example_row 1 10 50, example_row 0 12 50])) =
     Max (set (map evaluation [example_row 1 10 50, example_row 0 12 50]))"
    by code_simp
  from constant_column_normalized[OF a b] a b show ?thesis by simp
qed

theorem normalization_range_witness:
  "[example_row 1 10 (- 30), example_row 1 10 (- 250), example_row 1 10 50] \<noteq> [] \<and>
   Min (set (map evaluation
          [example_row 1 10 (- 30), example_row 1 10 (- 250), example_row 1 10 50])) \<noteq>
   Max (set (map evaluation
          [example_row 1 10 (- 30), example_row 1 10 (- 250), example_row 1 10 50])) \<and>
   normalize_evaluation
       [example_row 1 10 (- 30), example_row 1 10 (- 250), example_row 1 10 50] =
     Inr [feature_record.extend (example_row 1 10 (- 30)) (normalized_record.fields (7 / 15)),
          feature_record.extend (example_row 1 10 (- 250)) (normalized_record.fields (- 1)),
          feature_record.extend (example_row 1 10 50) (normalized_record.fields 1)] \<and>
   Min (set (map evaluation_normalized
      [feature_record.extend (example_row 1 10 (- 30)) (normalized_record.fields (7 / 15)),
       feature_record.extend (example_row 1 10 (- 250)) (normalized_record.fields (- 1)),
       feature_record.extend (example_row 1 10 50) (normalized_record.fields 1)])) = - 1 \<and>
   Max (set (map evaluation_normalized
      [feature_record.extend (example_row 1 10 (- 30)) (normalized_record.fields (7 / 15)),
       feature_record.extend (example_row 1 10 (- 250)) (normalized_record.fields (- 1)),
       feature_record.extend (example_row 1 10 50) (normalized_record.fields 1)])) = 1"
proof -
  let ?df = "[example_row 1 10 (- 30), example_row 1 10 (- 250), example_row 1 10 50]"
  let ?out = "[feature_record.extend (example_row 1 10 (- 30)) (normalized_record.fields (7 / 15)),
       feature_record.extend (example_row 1 10 (- 250)) (normalized_record.fields (- 1)),
       feature_record.extend (example_row 1 10 50) (normalized_record.fields 1)]"
  have a: "?df \<noteq> []" by simp
  have b: "Min (set (map evaluation ?df)) \<noteq> Max (set (map evaluation ?df))"
    by code_simp
  have c: "normalize_evaluation ?df = Inr ?out" by code_simp
  from normalization_range[OF a b] c
  have "Min (set (map evaluation_normalized ?out)) = - 1 \<and>
        Max (set (map evaluation_normalized ?out)) = 1"
    by auto
  with a b c show ?thesis by blast
qed

lemma normalize_evaluation_truncate:
  "normalize_evaluation df = Inr out \<Longrightarrow> map feature_record.truncate out = df"
proof (cases "df = []")
  case True
  moreover assume "normalize_evaluation df = Inr out"
  ultimately show ?thesis
    by (simp add: normalize_evaluation_def MinMaxScaler_fit_transform_def)
next
  case False
  moreover assume "normalize_evaluation df = Inr out"
  ultimately show ?thesis
    by (auto simp: normalize_evaluation_rows truncate_extend comp_def)
qed

lemma no_normalize_rows:
  assumes vs: "valid_sampler choice"
      and ok: "filter_balance_data_no_normalize choice df min_move max_move w t = Inr out"
  shows "set out \<subseteq> set (move_filter min_move max_move df)"
proof -
  let ?c = "centipawns (move_filter min_move max_move df)"
  from ok obtain bp where bp: "balance_primary choice ?c = Inr bp"
    and be: "balance_eval_bins choice w t bp = Inr out"
    by (auto simp: filter_balance_data_no_normalize_def Let_def split: if_splits sum.splits)
  from balance_eval_bins_edges[OF be] obtain bins where "eval_bin_edges w bp = Inr bins" ..
  from balance_eval_bins_labelled[OF vs this be] have "set out \<subseteq> set bp" by blast
  also have "\<dots> \<subseteq> set ?c" using vs bp by (rule balance_primary_subset)
  also have "\<dots> \<subseteq> set (move_filter min_move max_move df)" by (simp add: centipawns_def)
  finally show ?thesis .
qed

lemma normalize_rows:
  assumes vs: "valid_sampler choice"
      and ok: "filter_balance_normalize_data choice df min_move max_move w t cap = Inr out"
  shows "feature_record.truncate ` set out \<subseteq> set (move_filter min_move max_move df)"
proof -
  let ?c = "capping_filter cap (centipawns (move_filter min_move max_move df))"
  from ok obtain bp fb where bp: "balance_primary choice ?c = Inr bp"
    and be: "balance_eval_bins choice w t bp = Inr fb"
    and nz: "normalize_evaluation fb = Inr out"
    by (auto simp: filter_balance_normalize_data_def Let_def split: if_splits sum.splits)
  from normalize_evaluation_truncate[OF nz]
  have "feature_record.truncate ` set out = set fb" by (simp flip: set_map)
  moreover from balance_eval_bins_edges[OF be] obtain bins where "eval_bin_edges w bp = Inr bins" ..
  from balance_eval_bins_labelled[OF vs this be] have "set fb \<subseteq> set bp" by blast
  moreover have "set bp \<subseteq> set ?c" using vs bp by (rule balance_primary_subset)
  moreover have "set ?c \<subseteq> set (move_filter min_move max_move df)"
    by (auto simp: centipawns_def capping_filter_def)
  ultimately show ?thesis by blast
qed

text \<open>
  C10: the row substituted for a rejected board description has fullmove counter 0;
  with a lower bound of at least 1 on the fullmove counter it is in the output of
  neither script, whatever the input table and the other settings.
\<close>

theorem default_rows_excluded:
  assumes bad: "chess_Board fen = None" and mm: "1 \<le> min_move"
      and vs: "valid_sampler choice"
  shows "fullmove_counter (assign_columns (fst (parse_fen chess_Board fen) @ [e])) = 0 \<and>
         (\<forall>out. filter_balance_data_no_normalize choice df min_move max_move eval_bin_size
                   min_positions_per_eval_bin = Inr out
            \<longrightarrow> assign_columns (fst (parse_fen chess_Board fen) @ [e]) \<notin> set out) \<and>
         (\<forall>out. filter_balance_normalize_data choice df min_move max_move eval_bin_size
                   min_positions_per_eval_bin eval_capping_threshold = Inr out
            \<longrightarrow> assign_columns (fst (parse_fen chess_Board fen) @ [e])
                  \<notin> feature_record.truncate ` set out)"
proof -
  let ?d = "assign_columns (fst (parse_fen chess_Board fen) @ [e])"
  have "parse_fen chess_Board fen = (replicate 64 0 @ replicate 9 0, [InvalidFen fen])"
    using bad by (rule parse_fen_invalid)
  then have z: "fullmove_counter ?d = 0"
    by (simp only: fst_conv default_columns) simp
  with mm have nf: "?d \<notin> set (move_filter min_move max_move df)"
    by (simp add: move_filter_def)
  have "?d \<notin> set out"
    if "filter_balance_data_no_normalize choice df min_move max_move eval_bin_size
          min_positions_per_eval_bin = Inr out" for out
    using no_normalize_rows[OF vs that] nf by blast
  moreover have "?d \<notin> feature_record.truncate ` set out"
    if "filter_balance_normalize_data choice df min_move max_move eval_bin_size
          min_positions_per_eval_bin eval_capping_threshold = Inr out" for out
    using normalize_rows[OF vs that] nf by blast
  ultimately show ?thesis using z by blast
qed


theorem default_rows_excluded_witness:
  "no_board ''not a fen'' = None \<and> (1::int) \<le> 5 \<and> valid_sampler leading_positions \<and>
   fullmove_counter (assign_columns (fst (parse_fen no_board ''not a fen'') @ [50])) = 0 \<and>
   filter_balance_data_no_normalize leading_positions
     [assign_columns (fst (parse_fen no_board ''not a fen'') @ [50]),
      example_row 1 10 50, example_row 1 10 150] 5 35 100 1000 = Inr [example_row 1 10 50] \<and>
   assign_columns (fst (parse_fen no_board ''not a fen'') @ [50]) \<notin> set [example_row 1 10 50] \<and>
   filter_balance_normalize_data leading_positions
     [assign_columns (fst (parse_fen no_board ''not a fen'') @ [50]),
      example_row 1 10 50, example_row 1 10 150] 5 35 100 1000 2500 =
     Inr [feature_record.extend (example_row 1 10 50) (normalized_record.fields (- 1))] \<and>
   assign_columns (fst (parse_fen no_board ''not a fen'') @ [50]) \<notin>
     feature_record.truncate `
       set [feature_record.extend (example_row 1 10 50) (normalized_record.fields (- 1))]"
proof -
  let ?d = "assign_columns (fst (parse_fen no_board ''not a fen'') @ [50])"
  let ?df = "[?d, example_row 1 10 50, example_row 1 10 150]"
  have a: "no_board ''not a fen'' = None" by (simp add: no_board_def)
  have b: "(1::int) \<le> 5" by simp
  have c: "valid_sampler leading_positions"
    by (simp add: valid_sampler_def leading_positions_def)
  have r1: "filter_balance_data_no_normalize leading_positions ?df 5 35 100 1000 =
      Inr [example_row 1 10 50]"
    by code_simp
  have r2: "filter_balance_normalize_data leading_positions ?df 5 35 100 1000 2500 =
      Inr [feature_record.extend (example_row 1 10 50) (normalized_record.fields (- 1))]"
    by code_simp
  from default_rows_excluded[where chess_Board = no_board and fen = "''not a fen''"
        and min_move = 5 and choice = leading_positions and e = 50 and df = ?df
        and max_move = 35 and eval_bin_size = 100 and min_positions_per_eval_bin = 1000
        and eval_capping_threshold = 2500, OF a b c] r1 r2
  have "fullmove_counter ?d = 0" "?d \<notin> set [example_row 1 10 50]"
    "?d \<notin> feature_record.truncate `
       set [feature_record.extend (example_row 1 10 50) (normalized_record.fields (- 1))]"
    by blast+
  with a b c r1 r2 show ?thesis by blast
qed

end
